theory Spec2Isabelle
  imports Complex_Main "HOL-Library.Signed_Division"
begin

section \<open>Assembly of the banded normal-equations matrix\<close>

text \<open>
  A shallow embedding of \<^verbatim>\<open>banded_tools/build_banded.pyx\<close>: the three Cython functions
  \<^verbatim>\<open>build_banded\<close>, \<^verbatim>\<open>build_banded_2\<close> and \<^verbatim>\<open>build_banded_3\<close>.

  Conventions of the embedding.
  \<^item> A \<^verbatim>\<open>double\<close> is a \<^typ>\<open>real\<close>: all statements are about exact arithmetic.
  \<^item> The C \<^verbatim>\<open>int\<close> and \<^verbatim>\<open>long\<close> variables are values of \<^typ>\<open>int\<close>, and no wrap-around is
    modelled: the definitions compute what the code computes as long as every value the
    code keeps in a C \<^verbatim>\<open>int\<close> lies in the 32-bit range. Every theorem about arbitrary inputs
    assumes exactly that (\<open>ints_fit\<close> below, and the range conditions of
    \<open>grouping_in_range\<close>); outside the range it says nothing about the code.
  \<^item> A two-dimensional memoryview is a shape together with a row-major buffer. The file
    is compiled with \<^verbatim>\<open>boundscheck=False, wraparound=False\<close>: an index outside the shape
    is not checked and not wrapped, the compiled code simply touches memory it does not
    own. The embedding makes this an explicit outcome, \<open>OutOfBounds\<close>.
  \<^item> \<^verbatim>\<open>np.zeros\<close> raises \<^verbatim>\<open>ValueError\<close> on a negative dimension; for other dimensions the
    allocation is taken to succeed.
  \<^item> \<^verbatim>\<open>@cdivision(True)\<close>: \<^verbatim>\<open>//\<close> and \<^verbatim>\<open>%\<close> are the truncating C operators, \<open>sdiv\<close> and
    \<open>smod\<close>. The divisor \<open>n_coeffs\<close> is never \<open>0\<close> where they are evaluated: the column loop
    runs over \<open>n_t * n_coeffs - it\<close> indices, none when \<open>n_coeffs = 0\<close>.
  \<^item> \<^verbatim>\<open>prange\<close> runs its iterations in any order on disjoint rows of the output; it is
    modelled as the sequential loop.
\<close>

subsection \<open>Arrays\<close>

datatype error = ValueError | OutOfBounds

record matrix =
  nrows :: nat
  ncols :: nat
  buf :: "real list"

definition wf_matrix :: "matrix \<Rightarrow> bool" where
  "wf_matrix m \<longleftrightarrow> length (buf m) = nrows m * ncols m"

definition in_bounds :: "matrix \<Rightarrow> int \<Rightarrow> int \<Rightarrow> bool" where
  "in_bounds m i j \<longleftrightarrow> 0 \<le> i \<and> i < int (nrows m) \<and> 0 \<le> j \<and> j < int (ncols m)"

definition flat :: "matrix \<Rightarrow> int \<Rightarrow> int \<Rightarrow> nat" where
  "flat m i j = nat i * ncols m + nat j"

text \<open>\<^verbatim>\<open>m[i, j]\<close> as an expression.\<close>

definition mget :: "matrix \<Rightarrow> int \<Rightarrow> int \<Rightarrow> error + real" where
  "mget m i j = (if in_bounds m i j then Inr (buf m ! flat m i j) else Inl OutOfBounds)"

text \<open>\<^verbatim>\<open>m[i, j] += v\<close>.\<close>

definition madd_at :: "matrix \<Rightarrow> int \<Rightarrow> int \<Rightarrow> real \<Rightarrow> error + matrix" where
  "madd_at m i j v =
     (if in_bounds m i j
      then Inr (m\<lparr>buf := (buf m)[flat m i j := buf m ! flat m i j + v]\<rparr>)
      else Inl OutOfBounds)"

text \<open>\<^verbatim>\<open>a[i]\<close> for a one-dimensional \<^verbatim>\<open>long[::1]\<close> array.\<close>

definition aget :: "int list \<Rightarrow> int \<Rightarrow> error + int" where
  "aget a i = (if 0 \<le> i \<and> i < int (length a) then Inr (a ! nat i) else Inl OutOfBounds)"

text \<open>\<^verbatim>\<open>np.zeros((r, c))\<close>.\<close>

definition np_zeros :: "int \<Rightarrow> int \<Rightarrow> error + matrix" where
  "np_zeros r c =
     (if r < 0 \<or> c < 0 then Inl ValueError
      else Inr \<lparr>nrows = nat r, ncols = nat c, buf = replicate (nat r * nat c) 0\<rparr>)"

subsection \<open>Control flow\<close>

definition bind_err :: "error + 'a \<Rightarrow> ('a \<Rightarrow> error + 'b) \<Rightarrow> error + 'b" where
  "bind_err x f = (case x of Inl e \<Rightarrow> Inl e | Inr v \<Rightarrow> f v)"

text \<open>\<^verbatim>\<open>range(a, b)\<close>: the integers from \<open>a\<close> up to \<open>b - 1\<close>, none when \<open>b \<le> a\<close>.\<close>

definition py_range :: "int \<Rightarrow> int \<Rightarrow> int list" where
  "py_range a b = map (\<lambda>k. a + int k) [0..<nat (b - a)]"

text \<open>A \<^verbatim>\<open>for\<close> loop over a list of indices, threading the state; the first failure ends it.\<close>

fun for_each :: "int list \<Rightarrow> (int \<Rightarrow> 's \<Rightarrow> error + 's) \<Rightarrow> 's \<Rightarrow> error + 's" where
  "for_each [] body s = Inr s"
| "for_each (x # xs) body s =
     (case body x s of Inl e \<Rightarrow> Inl e | Inr s' \<Rightarrow> for_each xs body s')"

subsection \<open>The range of the C integers\<close>

text \<open>
  \<open>c_int x\<close>: the value \<open>x\<close> fits a C \<^verbatim>\<open>int\<close>. \<open>ints_fit base_DIF temporal p bandw\<close>: the band
  parameter, the three sizes \<open>n_t\<close>, \<open>n_coeffs\<close>, \<open>n_data\<close>, the bandwidth \<open>bandw\<close> and the
  number of columns \<open>n_t * n_coeffs\<close> of the result all fit. The loop variables and the
  indices computed from them then fit as well: they lie between \<open>0\<close> and these bounds.
\<close>

definition c_int :: "int \<Rightarrow> bool" where
  "c_int x \<longleftrightarrow> - (2 ^ 31) \<le> x \<and> x < 2 ^ 31"

definition ints_fit :: "matrix \<Rightarrow> matrix \<Rightarrow> int \<Rightarrow> int \<Rightarrow> bool" where
  "ints_fit base_DIF temporal p bandw \<longleftrightarrow>
     c_int p \<and> c_int (int (nrows temporal)) \<and> c_int (int (nrows base_DIF)) \<and>
     c_int (int (ncols base_DIF)) \<and> c_int bandw \<and>
     c_int (int (nrows temporal) * int (nrows base_DIF))"

subsection \<open>The three assemblers\<close>

text \<open>
  The summand of \<^verbatim>\<open>build_banded\<close> and \<^verbatim>\<open>build_banded_2\<close> at observation \<open>kt\<close>:
  \<^verbatim>\<open>temporal[it_t, kt] * base_DIF[it_s, kt] * temporal[jt_t, kt] * base_DIF[jt_s, kt]\<close>.
\<close>

definition term4 ::
  "matrix \<Rightarrow> matrix \<Rightarrow> int \<Rightarrow> int \<Rightarrow> int \<Rightarrow> int \<Rightarrow> int \<Rightarrow> error + real" where
  "term4 base_DIF temporal it_t it_s jt_t jt_s kt =
     bind_err (mget temporal it_t kt) (\<lambda>a.
     bind_err (mget base_DIF it_s kt) (\<lambda>b.
     bind_err (mget temporal jt_t kt) (\<lambda>c.
     bind_err (mget base_DIF jt_s kt) (\<lambda>d. Inr (a * b * c * d)))))"

definition build_banded :: "matrix \<Rightarrow> matrix \<Rightarrow> int \<Rightarrow> error + matrix" where
  "build_banded base_DIF temporal p =
     (let n_t = int (nrows temporal);
          n_coeffs = int (nrows base_DIF);
          bandw = (p + 1) * n_coeffs + 1;
          n_data = int (ncols base_DIF)
      in bind_err (np_zeros bandw (n_t * n_coeffs)) (\<lambda>banded.
         for_each (py_range 0 bandw) (\<lambda>it banded.
           let k = bandw - 1 - it in
           for_each (py_range 0 (n_t * n_coeffs - it)) (\<lambda>jt banded.
             let it_t = (it + jt) sdiv n_coeffs;
                 jt_t = jt sdiv n_coeffs
             in if p < \<bar>it_t - jt_t\<bar> then Inr banded
                else
                  let it_s = (it + jt) smod n_coeffs;
                      jt_s = jt smod n_coeffs
                  in for_each (py_range 0 n_data) (\<lambda>kt banded.
                       bind_err (term4 base_DIF temporal it_t it_s jt_t jt_s kt)
                         (madd_at banded k (it + jt))) banded) banded) banded))"

definition build_banded_2 ::
  "matrix \<Rightarrow> matrix \<Rightarrow> int \<Rightarrow> int list \<Rightarrow> int list \<Rightarrow> error + matrix" where
  "build_banded_2 base_DIF temporal p nonzero_inds starts =
     (let n_t = int (nrows temporal);
          n_coeffs = int (nrows base_DIF);
          bandw = (p + 1) * n_coeffs + 1
      in bind_err (np_zeros bandw (n_t * n_coeffs)) (\<lambda>banded.
         for_each (py_range 0 bandw) (\<lambda>it banded.
           let k = bandw - it - 1 in
           for_each (py_range 0 (n_t * n_coeffs - it)) (\<lambda>jt banded.
             let it_t = (it + jt) sdiv n_coeffs;
                 jt_t = jt sdiv n_coeffs
             in if p < \<bar>it_t - jt_t\<bar> then Inr banded
                else
                  let it_s = (it + jt) smod n_coeffs;
                      jt_s = jt smod n_coeffs;
                      ind = it_t * n_t + jt_t
                  in bind_err (aget starts ind) (\<lambda>lo.
                     bind_err (aget starts (ind + 1)) (\<lambda>hi.
                     for_each (py_range lo hi) (\<lambda>kt banded.
                       bind_err (aget nonzero_inds kt) (\<lambda>obs.
                       bind_err (term4 base_DIF temporal it_t it_s jt_t jt_s obs)
                         (madd_at banded k (it + jt)))) banded))) banded) banded))"

definition build_banded_3 ::
  "int list \<Rightarrow> matrix \<Rightarrow> matrix \<Rightarrow> int \<Rightarrow> error + matrix" where
  "build_banded_3 nlefts base_DIF temporal deg =
     (let n_t = int (nrows temporal);
          n_coeffs = int (nrows base_DIF);
          n_data = int (ncols base_DIF);
          bandw = (deg + 1) * n_coeffs
      in bind_err (np_zeros bandw (n_t * n_coeffs)) (\<lambda>banded.
         for_each (py_range 0 n_data) (\<lambda>it banded.
           bind_err (aget nlefts it) (\<lambda>nl.
           for_each (py_range (nl - deg) (nl + 1)) (\<lambda>p banded.
             if n_t \<le> p then Inr banded
             else
               for_each (py_range p (nl + 1)) (\<lambda>q banded.
                 if n_t \<le> q then Inr banded
                 else
                   for_each (py_range 0 n_coeffs) (\<lambda>j banded.
                     for_each (py_range 0 n_coeffs) (\<lambda>i banded.
                       let ind = n_coeffs * (4 + p - q) + j - i - 1 in
                       bind_err (mget temporal p it) (\<lambda>a.
                       bind_err (mget temporal q it) (\<lambda>b.
                       bind_err (mget base_DIF i it) (\<lambda>c.
                       bind_err (mget base_DIF j it) (\<lambda>d.
                       madd_at banded ind (i + q * n_coeffs) (a * b * c * d))))))
                       banded) banded) banded) banded)) banded))"

section \<open>Notions of the specification\<close>

text \<open>
  What follows is not code of the repository: it is the vocabulary in which the properties
  of the three functions are stated.
\<close>

subsection \<open>Reading the result\<close>

text \<open>
  \<open>entry m i j\<close> is the value at \<^verbatim>\<open>m[i, j]\<close> of a row-major array, for indices inside
  its shape; \<open>shaped R C m\<close> says that \<open>m\<close> is an \<open>R \<times> C\<close> array with a buffer of that size.
  \<open>adds R C f s r\<close> describes a piece of code started on the array \<open>s\<close>: it ends normally,
  \<open>r = Inr s'\<close>, and has added \<open>f i j\<close> to every cell. \<open>summand\<close> is the product of the four
  factors at one observation for the full-matrix entry \<open>(row, col)\<close>, \<open>gram\<close> its sum over the
  observations, and \<open>band_value\<close> the content of the cell \<open>(r, c)\<close> of the banded array.
\<close>

definition entry :: "matrix \<Rightarrow> nat \<Rightarrow> nat \<Rightarrow> real" where
  "entry m i j = buf m ! (i * ncols m + j)"

definition shaped :: "nat \<Rightarrow> nat \<Rightarrow> matrix \<Rightarrow> bool" where
  "shaped R C m \<longleftrightarrow> wf_matrix m \<and> nrows m = R \<and> ncols m = C"

definition adds :: "nat \<Rightarrow> nat \<Rightarrow> (nat \<Rightarrow> nat \<Rightarrow> real) \<Rightarrow> matrix \<Rightarrow> error + matrix \<Rightarrow> bool" where
  "adds R C f s r \<longleftrightarrow>
     (\<exists>s'. r = Inr s' \<and> shaped R C s' \<and> (\<forall>i<R. \<forall>j<C. entry s' i j = entry s i j + f i j))"

definition summand :: "matrix \<Rightarrow> matrix \<Rightarrow> nat \<Rightarrow> nat \<Rightarrow> nat \<Rightarrow> real" where
  "summand base_DIF temporal row col kt =
     (let n = nrows base_DIF
      in entry temporal (col div n) kt * entry base_DIF (col mod n) kt
         * entry temporal (row div n) kt * entry base_DIF (row mod n) kt)"

definition gram :: "matrix \<Rightarrow> matrix \<Rightarrow> nat \<Rightarrow> nat \<Rightarrow> real" where
  "gram base_DIF temporal row col = (\<Sum>kt<ncols base_DIF. summand base_DIF temporal row col kt)"

definition band_value :: "matrix \<Rightarrow> matrix \<Rightarrow> int \<Rightarrow> nat \<Rightarrow> nat \<Rightarrow> real" where
  "band_value base_DIF temporal p r c =
     (let n = nrows base_DIF;
          it = nat ((p + 1) * int n + 1) - 1 - r
      in if it \<le> c \<and> \<not> p < \<bar>int (c div n) - int ((c - it) div n)\<bar>
         then gram base_DIF temporal (c - it) c else 0)"

subsection \<open>The sparsity metadata of the second assembler\<close>

text \<open>
  \<open>group_slice\<close> is the list of observation indices that \<^verbatim>\<open>build_banded_2\<close> visits for the
  group \<open>ind\<close>: \<^verbatim>\<open>nonzero_inds[starts[ind] : starts[ind+1]]\<close>. A grouping is in range when
  every read of the two index arrays is inside them, every listed observation exists, and
  the group index and the two offsets fit the C \<^verbatim>\<open>int\<close> variables \<^verbatim>\<open>ind\<close> and \<^verbatim>\<open>kt\<close> that
  receive them; it is exact when, moreover, each slice lists, without repetition, exactly
  the observations at which both temporal rows of its group are nonzero.
\<close>

definition group_slice :: "int list \<Rightarrow> int list \<Rightarrow> nat \<Rightarrow> int list" where
  "group_slice nonzero_inds starts ind =
     map (\<lambda>kt. nonzero_inds ! nat kt) (py_range (starts ! ind) (starts ! (ind + 1)))"

definition grouping_in_range :: "nat \<Rightarrow> nat \<Rightarrow> int list \<Rightarrow> int list \<Rightarrow> bool" where
  "grouping_in_range n_t n_data nonzero_inds starts \<longleftrightarrow>
     (\<forall>it_t<n_t. \<forall>jt_t<n_t.
        it_t * n_t + jt_t + 1 < length starts \<and>
        c_int (int (it_t * n_t + jt_t + 1)) \<and>
        c_int (starts ! (it_t * n_t + jt_t)) \<and> c_int (starts ! (it_t * n_t + jt_t + 1)) \<and>
        (\<forall>kt\<in>set (py_range (starts ! (it_t * n_t + jt_t)) (starts ! (it_t * n_t + jt_t + 1))).
            0 \<le> kt \<and> kt < int (length nonzero_inds)) \<and>
        (\<forall>obs\<in>set (group_slice nonzero_inds starts (it_t * n_t + jt_t)).
            0 \<le> obs \<and> obs < int n_data))"

definition band_value_2 ::
  "matrix \<Rightarrow> matrix \<Rightarrow> int \<Rightarrow> int list \<Rightarrow> int list \<Rightarrow> nat \<Rightarrow> nat \<Rightarrow> real" where
  "band_value_2 base_DIF temporal p nonzero_inds starts r c =
     (let n = nrows base_DIF;
          it = nat ((p + 1) * int n + 1) - 1 - r
      in if it \<le> c \<and> \<not> p < \<bar>int (c div n) - int ((c - it) div n)\<bar>
         then (\<Sum>obs\<leftarrow>group_slice nonzero_inds starts
                         (c div n * nrows temporal + (c - it) div n).
                 summand base_DIF temporal (c - it) c (nat obs))
         else 0)"

definition both_nonzero :: "matrix \<Rightarrow> nat \<Rightarrow> nat \<Rightarrow> nat list" where
  "both_nonzero temporal it_t jt_t =
     filter (\<lambda>kt. entry temporal it_t kt \<noteq> 0 \<and> entry temporal jt_t kt \<noteq> 0) [0..<ncols temporal]"

definition grouping_exact :: "matrix \<Rightarrow> int list \<Rightarrow> int list \<Rightarrow> bool" where
  "grouping_exact temporal nonzero_inds starts \<longleftrightarrow>
     (\<forall>it_t\<in>{0..<nrows temporal}. \<forall>jt_t\<in>{0..<nrows temporal}.
        it_t * nrows temporal + jt_t + 1 < length starts \<and>
        c_int (int (it_t * nrows temporal + jt_t + 1)) \<and>
        c_int (starts ! (it_t * nrows temporal + jt_t)) \<and>
        c_int (starts ! (it_t * nrows temporal + jt_t + 1)) \<and>
        (\<forall>kt\<in>set (py_range (starts ! (it_t * nrows temporal + jt_t))
                              (starts ! (it_t * nrows temporal + jt_t + 1))).
            0 \<le> kt \<and> kt < int (length nonzero_inds)) \<and>
        distinct (group_slice nonzero_inds starts (it_t * nrows temporal + jt_t)) \<and>
        set (group_slice nonzero_inds starts (it_t * nrows temporal + jt_t))
          = set (map int (both_nonzero temporal it_t jt_t)))"

subsection \<open>Restriction to observations, sums of arrays\<close>

text \<open>
  \<open>select_cols m cs\<close> is the array \<^verbatim>\<open>m[:, cs]\<close>; \<open>restrict_cols m A\<close> keeps the columns of the
  set \<open>A\<close>, in increasing order; \<open>madd\<close> adds two arrays of one shape cell by cell.
\<close>

definition select_cols :: "matrix \<Rightarrow> nat list \<Rightarrow> matrix" where
  "select_cols m cs =
     \<lparr>nrows = nrows m, ncols = length cs,
      buf = map (\<lambda>idx. entry m (idx div length cs) (cs ! (idx mod length cs)))
              [0..<nrows m * length cs]\<rparr>"

definition restrict_cols :: "matrix \<Rightarrow> nat set \<Rightarrow> matrix" where
  "restrict_cols m A = select_cols m (sorted_list_of_set A)"

definition madd :: "matrix \<Rightarrow> matrix \<Rightarrow> matrix" where
  "madd a b = \<lparr>nrows = nrows a, ncols = ncols a, buf = map2 (+) (buf a) (buf b)\<rparr>"

text \<open>The array of zeros that \<^verbatim>\<open>np.zeros\<close> returns.\<close>

definition zeros :: "nat \<Rightarrow> nat \<Rightarrow> matrix" where
  "zeros R C = \<lparr>nrows = R, ncols = C, buf = replicate (R * C) 0\<rparr>"

subsection \<open>The full matrix implied by a band\<close>

text \<open>
  The entry \<open>(row, col)\<close> of the full symmetric matrix with \<open>row \<le> col\<close> is stored at
  \<^verbatim>\<open>banded[bandwidth-1-(col-row), col]\<close>; entries further from the diagonal than the band are
  \<open>0\<close>, and the lower triangle mirrors the upper one. \<open>design base_DIF temporal kt\<close> is the
  row of the design matrix at observation \<open>kt\<close>: its component \<open>r\<close> is the product of the
  temporal and the spatial basis function of the combined index \<open>r\<close>. \<open>quad_form N M v\<close> is
  \<open>v\<^sup>T M v\<close>. \<open>band_compatible temporal p\<close> says that \<open>p\<close> is what the specification takes it
  to be, the support width of the temporal basis: two temporal functions more than \<open>p\<close>
  blocks apart are never both nonzero at one observation.
\<close>

definition full_entry :: "matrix \<Rightarrow> nat \<Rightarrow> nat \<Rightarrow> real" where
  "full_entry banded r c =
     (let row = min r c; col = max r c
      in if col - row < nrows banded
         then entry banded (nrows banded - 1 - (col - row)) col else 0)"

definition design :: "matrix \<Rightarrow> matrix \<Rightarrow> nat \<Rightarrow> nat \<Rightarrow> real" where
  "design base_DIF temporal kt r =
     entry temporal (r div nrows base_DIF) kt * entry base_DIF (r mod nrows base_DIF) kt"

definition quad_form :: "nat \<Rightarrow> (nat \<Rightarrow> nat \<Rightarrow> real) \<Rightarrow> (nat \<Rightarrow> real) \<Rightarrow> real" where
  "quad_form N M v = (\<Sum>r<N. \<Sum>c<N. v r * M r c * v c)"

definition band_compatible :: "matrix \<Rightarrow> int \<Rightarrow> bool" where
  "band_compatible temporal p \<longleftrightarrow>
     (\<forall>kt\<in>{0..<ncols temporal}. \<forall>t\<in>{0..<nrows temporal}. \<forall>t'\<in>{0..<nrows temporal}.
        p < \<bar>int t - int t'\<bar> \<longrightarrow> entry temporal t kt * entry temporal t' kt = 0)"

subsection \<open>A small input\<close>

text \<open>
  Two spatial coefficients, three temporal basis functions, four observations. The first
  and the last temporal function are never both nonzero at one observation.
\<close>

definition ex_base :: matrix where
  "ex_base = \<lparr>nrows = 2, ncols = 4, buf = [1, 2, 0, 1,  0, 1, 3, 1]\<rparr>"

definition ex_temporal :: matrix where
  "ex_temporal = \<lparr>nrows = 3, ncols = 4, buf = [1, 1, 0, 0,  1, 2, 1, 1,  0, 0, 3, 1]\<rparr>"

definition ex_nonzero_inds :: "int list" where
  "ex_nonzero_inds = [0, 1,  0, 1,  0, 1,  0, 1, 2, 3,  2, 3,  2, 3,  2, 3]"

definition ex_starts :: "int list" where
  "ex_starts = [0, 2, 4, 4, 6, 10, 12, 12, 14, 16]"

text \<open>A temporal basis without local support: three functions, all \<open>1\<close> at one observation.\<close>

definition ones_base :: matrix where
  "ones_base = \<lparr>nrows = 1, ncols = 1, buf = [1]\<rparr>"

definition ones_temporal :: matrix where
  "ones_temporal = \<lparr>nrows = 3, ncols = 1, buf = [1, 1, 1]\<rparr>"

definition probe :: "nat \<Rightarrow> real" where
  "probe i = (if i = 1 then - 3 else 2)"

text \<open>
  A temporal matrix with one observation more than \<open>ones_base\<close>; four temporal functions
  at one observation; two spatial coefficients at one observation.
\<close>

definition wide_temporal :: matrix where
  "wide_temporal = \<lparr>nrows = 1, ncols = 2, buf = [1, 5]\<rparr>"

definition knots_temporal :: matrix where
  "knots_temporal = \<lparr>nrows = 4, ncols = 1, buf = [1, 2, 3, 5]\<rparr>"

definition pair_base :: matrix where
  "pair_base = \<lparr>nrows = 2, ncols = 1, buf = [1, 1]\<rparr>"

section \<open>Properties of the arrays and of the loops\<close>

lemma bind_err_Inr [simp]: "bind_err (Inr v) f = f v"
  by (simp add: bind_err_def)

lemma bind_err_Inl [simp]: "bind_err (Inl e) f = Inl e"
  by (simp add: bind_err_def)

lemma flat_index_less: "i < R \<Longrightarrow> j < C \<Longrightarrow> i * C + j < R * (C::nat)"
proof -
  assume a: "i < R" "j < C"
  then have "i * C + j < i * C + C" by simp
  also have "\<dots> = Suc i * C" by simp
  also from a have "\<dots> \<le> R * C" by (intro mult_le_mono1) simp
  finally show ?thesis .
qed

lemma flat_index_inj:
  assumes "j < C" "j' < C" "i * C + j = i' * C + (j'::nat)"
  shows "i = i' \<and> j = j'"
proof -
  from assms(1) have a: "(i * C + j) div C = i" by simp
  from assms(2) have b: "(i' * C + j') div C = i'" by simp
  from a b assms(3) have i: "i = i'" by metis
  with assms(3) show ?thesis by simp
qed

lemma mget_entry:
  "i < nrows m \<Longrightarrow> j < ncols m \<Longrightarrow> mget m (int i) (int j) = Inr (entry m i j)"
  by (simp add: mget_def in_bounds_def flat_def entry_def)

lemma madd_at_adds:
  assumes "shaped R C s" "i < R" "j < C"
  shows "adds R C (\<lambda>i' j'. if i' = i \<and> j' = j then v else 0) s (madd_at s (int i) (int j) v)"
proof -
  from assms have len: "length (buf s) = R * C" and [simp]: "nrows s = R" "ncols s = C"
    by (simp_all add: shaped_def wf_matrix_def)
  let ?s' = "s\<lparr>buf := (buf s)[i * C + j := buf s ! (i * C + j) + v]\<rparr>"
  from assms have eq: "madd_at s (int i) (int j) v = Inr ?s'"
    by (simp add: madd_at_def in_bounds_def flat_def)
  have sh: "shaped R C ?s'"
    using len by (simp add: shaped_def wf_matrix_def)
  have "entry ?s' i' j' = entry s i' j' + (if i' = i \<and> j' = j then v else 0)"
    if "i' < R" "j' < C" for i' j'
  proof (cases "i' = i \<and> j' = j")
    case True
    with flat_index_less[OF assms(2,3)] len show ?thesis
      by (simp add: entry_def)
  next
    case False
    with flat_index_inj[OF that(2) assms(3)] have "i' * C + j' \<noteq> i * C + j" by blast
    then show ?thesis using False by (auto simp: entry_def)
  qed
  with eq sh show ?thesis unfolding adds_def by blast
qed

lemma adds_skip: "shaped R C s \<Longrightarrow> adds R C (\<lambda>i j. 0) s (Inr s)"
  by (simp add: adds_def)

lemma adds_cong:
  "adds R C f s r \<Longrightarrow> (\<And>i j. i < R \<Longrightarrow> j < C \<Longrightarrow> f i j = g i j) \<Longrightarrow> adds R C g s r"
  by (auto simp: adds_def)

lemma for_each_adds:
  assumes "\<And>x s. x \<in> set xs \<Longrightarrow> shaped R C s \<Longrightarrow> adds R C (d x) s (body x s)"
    and "shaped R C s"
  shows "adds R C (\<lambda>i j. \<Sum>x\<leftarrow>xs. d x i j) s (for_each xs body s)"
  using assms
proof (induction xs arbitrary: s)
  case Nil
  then show ?case by (simp add: adds_def)
next
  case (Cons x xs)
  from Cons.prems(1)[of x s] Cons.prems(2)
  obtain s1 where s1: "body x s = Inr s1" "shaped R C s1"
    "\<forall>i<R. \<forall>j<C. entry s1 i j = entry s i j + d x i j"
    by (auto simp: adds_def)
  have "adds R C (\<lambda>i j. \<Sum>x\<leftarrow>xs. d x i j) s1 (for_each xs body s1)"
    by (rule Cons.IH) (use Cons.prems s1 in auto)
  then obtain s2 where s2: "for_each xs body s1 = Inr s2" "shaped R C s2"
    "\<forall>i<R. \<forall>j<C. entry s2 i j = entry s1 i j + (\<Sum>x\<leftarrow>xs. d x i j)"
    by (auto simp: adds_def)
  from s1 s2 show ?case
    by (simp add: adds_def)
qed

lemma sum_list_py_range:
  "(\<Sum>x\<leftarrow>py_range a b. f x) = (\<Sum>k<nat (b - a). f (a + int k))"
proof -
  have "(\<Sum>x\<leftarrow>py_range a b. f x) = (\<Sum>k\<leftarrow>[0..<nat (b - a)]. f (a + int k))"
    by (simp add: py_range_def comp_def)
  also have "\<dots> = (\<Sum>k<nat (b - a). f (a + int k))"
    by (simp add: interv_sum_list_conv_sum_set_nat lessThan_atLeast0)
  finally show ?thesis .
qed

lemma for_range_adds:
  assumes "\<And>k s. k < m \<Longrightarrow> shaped R C s \<Longrightarrow> adds R C (d k) s (body (int k) s)"
    and "shaped R C s"
  shows "adds R C (\<lambda>i j. \<Sum>k<m. d k i j) s (for_each (py_range 0 (int m)) body s)"
proof -
  have "adds R C (\<lambda>i j. \<Sum>x\<leftarrow>py_range 0 (int m). d (nat x) i j) s
          (for_each (py_range 0 (int m)) body s)"
  proof (rule for_each_adds)
    fix x s assume "x \<in> set (py_range 0 (int m))" "shaped R C s"
    then obtain k where "x = int k" "k < m" by (auto simp: py_range_def)
    with assms(1)[of k s] \<open>shaped R C s\<close> show "adds R C (d (nat x)) s (body x s)" by simp
  qed (rule assms(2))
  then show ?thesis by (simp add: sum_list_py_range)
qed

lemma sdiv_int: "int a sdiv int n = int (a div n)"
  by (cases "a = 0"; cases "n = 0") (simp_all add: signed_divide_int_def zdiv_int)

lemma smod_int: "int a smod int n = int (a mod n)"
  by (cases "a = 0") (simp_all add: signed_modulo_int_def zmod_int)

lemma term4_entry:
  assumes "it_t < nrows temporal" "jt_t < nrows temporal"
    and "it_s < nrows base_DIF" "jt_s < nrows base_DIF"
    and "kt < ncols base_DIF" "kt < ncols temporal"
  shows "term4 base_DIF temporal (int it_t) (int it_s) (int jt_t) (int jt_s) (int kt)
         = Inr (entry temporal it_t kt * entry base_DIF it_s kt
                * entry temporal jt_t kt * entry base_DIF jt_s kt)"
  using assms by (simp add: term4_def mget_entry)

lemma np_zeros_shaped:
  "np_zeros (int R) (int C) = Inr \<lparr>nrows = R, ncols = C, buf = replicate (R * C) 0\<rparr>"
  by (simp add: np_zeros_def)

lemma zeros_shaped: "shaped R C \<lparr>nrows = R, ncols = C, buf = replicate (R * C) 0\<rparr>"
  by (simp add: shaped_def wf_matrix_def)

lemma zeros_entry:
  "i < R \<Longrightarrow> j < C \<Longrightarrow> entry \<lparr>nrows = R, ncols = C, buf = replicate (R * C) 0\<rparr> i j = 0"
  by (simp add: entry_def flat_index_less)

text \<open>Innermost loop: one cell receives the sum of the summands.\<close>

lemma kt_loop_adds:
  assumes "shaped W N s" "k < W" "c < N"
    and "\<And>kt. kt < nd \<Longrightarrow> tm (int kt) = Inr (g kt)"
  shows "adds W N (\<lambda>i j. if i = k \<and> j = c then (\<Sum>kt<nd. g kt) else 0) s
          (for_each (py_range 0 (int nd))
             (\<lambda>kt banded. bind_err (tm kt) (madd_at banded (int k) (int c))) s)"
proof (rule adds_cong)
  show "adds W N (\<lambda>i j. \<Sum>kt<nd. (if i = k \<and> j = c then g kt else 0)) s
          (for_each (py_range 0 (int nd))
             (\<lambda>kt banded. bind_err (tm kt) (madd_at banded (int k) (int c))) s)"
  proof (rule for_range_adds)
    fix kt s' assume "kt < nd" "shaped W N s'"
    with assms show "adds W N (\<lambda>i j. if i = k \<and> j = c then g kt else 0) s'
                       (bind_err (tm (int kt)) (madd_at s' (int k) (int c)))"
      by (simp add: madd_at_adds)
  qed (rule assms(1))
qed auto

text \<open>Column loop: the cells of one band row, one per column.\<close>

lemma jt_loop_adds:
  assumes "shaped W N s"
    and "\<And>jt s. jt < N - it \<Longrightarrow> shaped W N s \<Longrightarrow>
           adds W N (\<lambda>i j. if i = k \<and> j = it + jt then X jt else 0) s (body (int jt) s)"
  shows "adds W N (\<lambda>i j. if i = k then (if it \<le> j then X (j - it) else 0) else 0) s
           (for_each (py_range 0 (int N - int it)) body s)"
proof (rule adds_cong)
  have "adds W N (\<lambda>i j. \<Sum>jt<N - it. (if i = k \<and> j = it + jt then X jt else 0)) s
          (for_each (py_range 0 (int (N - it))) body s)"
    by (rule for_range_adds) (use assms in auto)
  moreover have "nat (int N - int it) = N - it"
    by linarith
  then have "py_range 0 (int N - int it) = py_range 0 (int (N - it))"
    by (simp add: py_range_def)
  ultimately show "adds W N (\<lambda>i j. \<Sum>jt<N - it. (if i = k \<and> j = it + jt then X jt else 0)) s
          (for_each (py_range 0 (int N - int it)) body s)"
    by simp
next
  fix i j assume "i < W" "j < N"
  have "(\<Sum>jt<N - it. (if i = k \<and> j = it + jt then X jt else 0))
        = (\<Sum>jt<N - it. (if jt = j - it then (if i = k \<and> it \<le> j then X jt else 0) else 0))"
    by (rule sum.cong) auto
  also have "\<dots> = (if j - it < N - it then (if i = k \<and> it \<le> j then X (j - it) else 0) else 0)"
    by (simp add: sum.delta)
  also have "\<dots> = (if i = k then (if it \<le> j then X (j - it) else 0) else 0)"
    using \<open>j < N\<close> by auto
  finally show "(\<Sum>jt<N - it. (if i = k \<and> j = it + jt then X jt else 0))
        = (if i = k then (if it \<le> j then X (j - it) else 0) else 0)" .
qed

text \<open>Band-offset loop: each offset fills its own row.\<close>

lemma it_loop_adds:
  assumes "shaped W N s"
    and "\<And>it s. it < W \<Longrightarrow> shaped W N s \<Longrightarrow>
           adds W N (\<lambda>i j. if i = W - 1 - it then Y it j else 0) s (body (int it) s)"
  shows "adds W N (\<lambda>i j. Y (W - 1 - i) j) s (for_each (py_range 0 (int W)) body s)"
proof (rule adds_cong)
  show "adds W N (\<lambda>i j. \<Sum>it<W. (if i = W - 1 - it then Y it j else 0)) s
          (for_each (py_range 0 (int W)) body s)"
    by (rule for_range_adds) (use assms in auto)
next
  fix i j assume "i < W" "j < N"
  have "(\<Sum>it<W. (if i = W - 1 - it then Y it j else 0))
        = (\<Sum>it<W. (if it = W - 1 - i then Y it j else 0))"
    by (rule sum.cong) (use \<open>i < W\<close> in auto)
  also have "\<dots> = Y (W - 1 - i) j"
    using \<open>i < W\<close> by (simp add: sum.delta)
  finally show "(\<Sum>it<W. (if i = W - 1 - it then Y it j else 0)) = Y (W - 1 - i) j" .
qed

lemma div_less_blocks: "c < nt * n \<Longrightarrow> c div n < (nt::nat)"
  by (simp add: less_mult_imp_div_less)

lemma mod_less_block: "c < nt * n \<Longrightarrow> c mod n < (n::nat)"
  by (cases "n = 0") simp_all

lemma build_banded_entries:
  assumes cols: "ncols base_DIF \<le> ncols temporal"
    and bw: "0 \<le> (p + 1) * int (nrows base_DIF) + 1"
  shows "\<exists>B. build_banded base_DIF temporal p = Inr B \<and>
           shaped (nat ((p + 1) * int (nrows base_DIF) + 1)) (nrows temporal * nrows base_DIF) B \<and>
           (\<forall>r<nat ((p + 1) * int (nrows base_DIF) + 1). \<forall>c<nrows temporal * nrows base_DIF.
              entry B r c = band_value base_DIF temporal p r c)"
proof -
  define n where "n = nrows base_DIF"
  define nt where "nt = nrows temporal"
  define nd where "nd = ncols base_DIF"
  define W where "W = nat ((p + 1) * int n + 1)"
  define N where "N = nt * n"
  define Z where "Z = \<lparr>nrows = W, ncols = N, buf = replicate (W * N) 0\<rparr>"
  define X where "X it jt =
    (if p < \<bar>int ((it + jt) div n) - int (jt div n)\<bar> then 0
     else gram base_DIF temporal jt (it + jt))" for it jt
  define jt_body where "jt_body it jt banded =
    (let it_t = (it + jt) sdiv int n; jt_t = jt sdiv int n
     in if p < \<bar>it_t - jt_t\<bar> then Inr banded
        else for_each (py_range 0 (int nd)) (\<lambda>kt banded.
               bind_err (term4 base_DIF temporal it_t ((it + jt) smod int n) jt_t (jt smod int n) kt)
                 (madd_at banded ((p + 1) * int n + 1 - 1 - it) (it + jt))) banded)"
    for it jt :: int and banded :: matrix
  have W: "int W = (p + 1) * int n + 1"
    using bw by (simp add: W_def n_def)
  have unfold: "build_banded base_DIF temporal p =
      bind_err (np_zeros (int W) (int N)) (\<lambda>banded.
        for_each (py_range 0 (int W)) (\<lambda>it banded.
          for_each (py_range 0 (int N - it)) (jt_body it) banded) banded)"
    unfolding build_banded_def Let_def jt_body_def W n_def nt_def nd_def N_def
    by simp
  have cell: "adds W N (\<lambda>i j. if i = W - 1 - it \<and> j = it + jt then X it jt else 0) s
                (jt_body (int it) (int jt) s)"
    if "it < W" "jt < N - it" "shaped W N s" for it jt s
  proof (cases "p < \<bar>int ((it + jt) div n) - int (jt div n)\<bar>")
    case True
    then have "jt_body (int it) (int jt) s = Inr s"
      by (simp add: jt_body_def sdiv_int flip: of_nat_add)
    moreover from True have "X it jt = 0" by (simp add: X_def)
    ultimately show ?thesis using adds_skip[OF that(3)] by (simp cong: if_cong)
  next
    case False
    from that have c: "it + jt < nt * n" "jt < nt * n" by (simp_all add: N_def)
    then have idx: "(it + jt) div n < nrows temporal" "jt div n < nrows temporal"
      "(it + jt) mod n < nrows base_DIF" "jt mod n < nrows base_DIF"
      unfolding nt_def[symmetric] n_def[symmetric]
      by (simp_all only: div_less_blocks mod_less_block)
    have k: "(p + 1) * int n + 1 - 1 - int it = int (W - 1 - it)"
      using that(1) W by linarith
    have body: "jt_body (int it) (int jt) s =
        for_each (py_range 0 (int nd)) (\<lambda>kt banded.
          bind_err (term4 base_DIF temporal (int ((it + jt) div n)) (int ((it + jt) mod n))
                      (int (jt div n)) (int (jt mod n)) kt)
            (madd_at banded (int (W - 1 - it)) (int (it + jt)))) s"
      using False unfolding jt_body_def k
      by (simp add: sdiv_int smod_int flip: of_nat_add)
    have "adds W N (\<lambda>i j. if i = W - 1 - it \<and> j = it + jt
                      then (\<Sum>kt<nd. summand base_DIF temporal jt (it + jt) kt) else 0) s
            (jt_body (int it) (int jt) s)"
      unfolding body
    proof (rule kt_loop_adds)
      show "shaped W N s" by fact
      show "W - 1 - it < W" using that(1) by simp
      show "it + jt < N" using that(2) by simp
      fix kt assume kt: "kt < nd"
      with cols have kt': "kt < ncols temporal" "kt < ncols base_DIF" by (simp_all add: nd_def)
      show "term4 base_DIF temporal (int ((it + jt) div n)) (int ((it + jt) mod n))
              (int (jt div n)) (int (jt mod n)) (int kt)
            = Inr (summand base_DIF temporal jt (it + jt) kt)"
        unfolding summand_def Let_def n_def[symmetric]
        by (rule term4_entry) (use idx kt' in simp_all)
    qed
    moreover from False have "X it jt = (\<Sum>kt<nd. summand base_DIF temporal jt (it + jt) kt)"
      by (simp add: X_def gram_def nd_def)
    ultimately show ?thesis by (simp cong: if_cong)
  qed
  have row: "adds W N (\<lambda>i j. if i = W - 1 - it then (if it \<le> j then X it (j - it) else 0) else 0) s
               (for_each (py_range 0 (int N - int it)) (jt_body (int it)) s)"
    if "it < W" "shaped W N s" for it s
    by (rule jt_loop_adds) (use that cell in auto)
  have all: "adds W N (\<lambda>i j. if W - 1 - i \<le> j then X (W - 1 - i) (j - (W - 1 - i)) else 0) Z
               (for_each (py_range 0 (int W)) (\<lambda>it banded.
                  for_each (py_range 0 (int N - it)) (jt_body it) banded) Z)"
    by (rule it_loop_adds[where Y = "\<lambda>it j. if it \<le> j then X it (j - it) else 0"])
       (use row in \<open>auto simp: Z_def zeros_shaped\<close>)
  then obtain B where B: "for_each (py_range 0 (int W)) (\<lambda>it banded.
                  for_each (py_range 0 (int N - it)) (jt_body it) banded) Z = Inr B"
    "shaped W N B"
    "\<forall>i<W. \<forall>j<N. entry B i j = entry Z i j
        + (if W - 1 - i \<le> j then X (W - 1 - i) (j - (W - 1 - i)) else 0)"
    by (auto simp: adds_def)
  have "build_banded base_DIF temporal p = Inr B"
    unfolding unfold by (simp add: np_zeros_shaped B(1)[unfolded Z_def])
  moreover have "entry B r c = band_value base_DIF temporal p r c" if "r < W" "c < N" for r c
  proof -
    from B(3) that have "entry B r c = (if W - 1 - r \<le> c then X (W - 1 - r) (c - (W - 1 - r)) else 0)"
      by (simp add: Z_def zeros_entry)
    also have "\<dots> = band_value base_DIF temporal p r c"
      by (simp add: band_value_def Let_def X_def W_def n_def)
    finally show ?thesis .
  qed
  ultimately show ?thesis using B(2) by (auto simp: W_def N_def n_def nt_def)
qed

subsection \<open>The index-accelerated assembler\<close>

lemma cell_loop_adds:
  assumes "shaped W N s" "k < W" "c < N"
    and "\<And>x s'. x \<in> set xs \<Longrightarrow> body x s' = madd_at s' (int k) (int c) (g x)"
  shows "adds W N (\<lambda>i j. if i = k \<and> j = c then (\<Sum>x\<leftarrow>xs. g x) else 0) s (for_each xs body s)"
proof (rule adds_cong)
  show "adds W N (\<lambda>i j. \<Sum>x\<leftarrow>xs. (if i = k \<and> j = c then g x else 0)) s (for_each xs body s)"
  proof (rule for_each_adds)
    fix x s' assume "x \<in> set xs" "shaped W N s'"
    with assms show "adds W N (\<lambda>i j. if i = k \<and> j = c then g x else 0) s' (body x s')"
      by (simp add: madd_at_adds)
  qed (rule assms(1))
qed auto

lemma build_banded_2_entries:
  assumes grp: "grouping_in_range (nrows temporal) nd nonzero_inds starts"
    and cols: "nd \<le> ncols base_DIF" "nd \<le> ncols temporal"
    and bw: "0 \<le> (p + 1) * int (nrows base_DIF) + 1"
  shows "\<exists>B. build_banded_2 base_DIF temporal p nonzero_inds starts = Inr B \<and>
           shaped (nat ((p + 1) * int (nrows base_DIF) + 1)) (nrows temporal * nrows base_DIF) B \<and>
           (\<forall>r<nat ((p + 1) * int (nrows base_DIF) + 1). \<forall>c<nrows temporal * nrows base_DIF.
              entry B r c = band_value_2 base_DIF temporal p nonzero_inds starts r c)"
proof -
  define n where "n = nrows base_DIF"
  define nt where "nt = nrows temporal"
  define W where "W = nat ((p + 1) * int n + 1)"
  define N where "N = nt * n"
  define Z where "Z = \<lparr>nrows = W, ncols = N, buf = replicate (W * N) 0\<rparr>"
  define X where "X it jt =
    (if p < \<bar>int ((it + jt) div n) - int (jt div n)\<bar> then 0
     else (\<Sum>obs\<leftarrow>group_slice nonzero_inds starts ((it + jt) div n * nt + jt div n).
             summand base_DIF temporal jt (it + jt) (nat obs)))" for it jt
  define jt_body where "jt_body it jt banded =
    (let it_t = (it + jt) sdiv int n; jt_t = jt sdiv int n
     in if p < \<bar>it_t - jt_t\<bar> then Inr banded
        else bind_err (aget starts (it_t * int nt + jt_t)) (\<lambda>lo.
             bind_err (aget starts (it_t * int nt + jt_t + 1)) (\<lambda>hi.
             for_each (py_range lo hi) (\<lambda>kt banded.
               bind_err (aget nonzero_inds kt) (\<lambda>obs.
               bind_err (term4 base_DIF temporal it_t ((it + jt) smod int n) jt_t
                           (jt smod int n) obs)
                 (madd_at banded ((p + 1) * int n + 1 - it - 1) (it + jt)))) banded)))"
    for it jt :: int and banded :: matrix
  have W: "int W = (p + 1) * int n + 1"
    using bw by (simp add: W_def n_def)
  have unfold: "build_banded_2 base_DIF temporal p nonzero_inds starts =
      bind_err (np_zeros (int W) (int N)) (\<lambda>banded.
        for_each (py_range 0 (int W)) (\<lambda>it banded.
          for_each (py_range 0 (int N - it)) (jt_body it) banded) banded)"
    unfolding build_banded_2_def Let_def jt_body_def W n_def nt_def N_def
    by simp
  have cell: "adds W N (\<lambda>i j. if i = W - 1 - it \<and> j = it + jt then X it jt else 0) s
                (jt_body (int it) (int jt) s)"
    if "it < W" "jt < N - it" "shaped W N s" for it jt s
  proof (cases "p < \<bar>int ((it + jt) div n) - int (jt div n)\<bar>")
    case True
    then have "jt_body (int it) (int jt) s = Inr s"
      by (simp add: jt_body_def sdiv_int flip: of_nat_add)
    moreover from True have "X it jt = 0" by (simp add: X_def)
    ultimately show ?thesis using adds_skip[OF that(3)] by (simp cong: if_cong)
  next
    case False
    from that have c: "it + jt < nt * n" "jt < nt * n" by (simp_all add: N_def)
    then have idx: "(it + jt) div n < nrows temporal" "jt div n < nrows temporal"
      "(it + jt) mod n < nrows base_DIF" "jt mod n < nrows base_DIF"
      unfolding nt_def[symmetric] n_def[symmetric]
      by (simp_all only: div_less_blocks mod_less_block)
    define ind where "ind = (it + jt) div n * nt + jt div n"
    from grp idx(1,2) have g: "ind + 1 < length starts"
      "\<forall>kt\<in>set (py_range (starts ! ind) (starts ! (ind + 1))).
          0 \<le> kt \<and> kt < int (length nonzero_inds)"
      "\<forall>obs\<in>set (group_slice nonzero_inds starts ind). 0 \<le> obs \<and> obs < int nd"
      unfolding grouping_in_range_def ind_def nt_def by blast+
    have k: "(p + 1) * int n + 1 - int it - 1 = int (W - 1 - it)"
      using that(1) W by linarith
    have ind_int: "int ((it + jt) div n) * int nt + int (jt div n) = int ind"
      by (simp add: ind_def)
    have lo: "aget starts (int ind) = Inr (starts ! ind)"
      and hi: "aget starts (int ind + 1) = Inr (starts ! (ind + 1))"
      using g(1) by (simp_all add: aget_def nat_add_distrib)
    have body: "jt_body (int it) (int jt) s =
        for_each (py_range (starts ! ind) (starts ! (ind + 1))) (\<lambda>kt banded.
          bind_err (aget nonzero_inds kt) (\<lambda>obs.
          bind_err (term4 base_DIF temporal (int ((it + jt) div n)) (int ((it + jt) mod n))
                      (int (jt div n)) (int (jt mod n)) obs)
            (madd_at banded (int (W - 1 - it)) (int (it + jt))))) s"
      using False unfolding jt_body_def k
      by (simp add: sdiv_int smod_int ind_int lo hi flip: of_nat_add)
    have "adds W N (\<lambda>i j. if i = W - 1 - it \<and> j = it + jt
                      then (\<Sum>kt\<leftarrow>py_range (starts ! ind) (starts ! (ind + 1)).
                              summand base_DIF temporal jt (it + jt) (nat (nonzero_inds ! nat kt)))
                      else 0) s
            (jt_body (int it) (int jt) s)"
      unfolding body
    proof (rule cell_loop_adds)
      show "shaped W N s" by fact
      show "W - 1 - it < W" using that(1) by simp
      show "it + jt < N" using that(2) by simp
      fix kt s' assume kt: "kt \<in> set (py_range (starts ! ind) (starts ! (ind + 1)))"
      with g(2) have a: "aget nonzero_inds kt = Inr (nonzero_inds ! nat kt)"
        by (simp add: aget_def)
      from kt have "nonzero_inds ! nat kt \<in> set (group_slice nonzero_inds starts ind)"
        by (simp add: group_slice_def)
      with g(3) have o: "0 \<le> nonzero_inds ! nat kt" "nonzero_inds ! nat kt < int nd" by auto
      define ob where "ob = nat (nonzero_inds ! nat kt)"
      from o have ob: "nonzero_inds ! nat kt = int ob" "ob < nd"
        by (simp_all add: ob_def)
      with cols have ob': "ob < ncols base_DIF" "ob < ncols temporal" by simp_all
      have "term4 base_DIF temporal (int ((it + jt) div n)) (int ((it + jt) mod n))
              (int (jt div n)) (int (jt mod n)) (int ob)
            = Inr (summand base_DIF temporal jt (it + jt) ob)"
        unfolding summand_def Let_def n_def[symmetric]
        by (rule term4_entry) (use idx ob' in simp_all)
      with a ob show "bind_err (aget nonzero_inds kt) (\<lambda>obs.
          bind_err (term4 base_DIF temporal (int ((it + jt) div n)) (int ((it + jt) mod n))
                      (int (jt div n)) (int (jt mod n)) obs)
            (madd_at s' (int (W - 1 - it)) (int (it + jt))))
          = madd_at s' (int (W - 1 - it)) (int (it + jt))
              (summand base_DIF temporal jt (it + jt) (nat (nonzero_inds ! nat kt)))"
        by simp
    qed
    moreover from False have "X it jt = (\<Sum>kt\<leftarrow>py_range (starts ! ind) (starts ! (ind + 1)).
                              summand base_DIF temporal jt (it + jt) (nat (nonzero_inds ! nat kt)))"
      by (simp add: X_def group_slice_def ind_def comp_def)
    ultimately show ?thesis by (simp cong: if_cong)
  qed
  have row: "adds W N (\<lambda>i j. if i = W - 1 - it then (if it \<le> j then X it (j - it) else 0) else 0) s
               (for_each (py_range 0 (int N - int it)) (jt_body (int it)) s)"
    if "it < W" "shaped W N s" for it s
    by (rule jt_loop_adds) (use that cell in auto)
  have all: "adds W N (\<lambda>i j. if W - 1 - i \<le> j then X (W - 1 - i) (j - (W - 1 - i)) else 0) Z
               (for_each (py_range 0 (int W)) (\<lambda>it banded.
                  for_each (py_range 0 (int N - it)) (jt_body it) banded) Z)"
    by (rule it_loop_adds[where Y = "\<lambda>it j. if it \<le> j then X it (j - it) else 0"])
       (use row in \<open>auto simp: Z_def zeros_shaped\<close>)
  then obtain B where B: "for_each (py_range 0 (int W)) (\<lambda>it banded.
                  for_each (py_range 0 (int N - it)) (jt_body it) banded) Z = Inr B"
    "shaped W N B"
    "\<forall>i<W. \<forall>j<N. entry B i j = entry Z i j
        + (if W - 1 - i \<le> j then X (W - 1 - i) (j - (W - 1 - i)) else 0)"
    by (auto simp: adds_def)
  have "build_banded_2 base_DIF temporal p nonzero_inds starts = Inr B"
    unfolding unfold by (simp add: np_zeros_shaped B(1)[unfolded Z_def])
  moreover have "entry B r c = band_value_2 base_DIF temporal p nonzero_inds starts r c"
    if "r < W" "c < N" for r c
  proof -
    from B(3) that have "entry B r c = (if W - 1 - r \<le> c then X (W - 1 - r) (c - (W - 1 - r)) else 0)"
      by (simp add: Z_def zeros_entry)
    also have "\<dots> = band_value_2 base_DIF temporal p nonzero_inds starts r c"
      by (simp add: band_value_2_def Let_def X_def W_def n_def nt_def)
    finally show ?thesis .
  qed
  ultimately show ?thesis using B(2) by (auto simp: W_def N_def n_def nt_def)
qed

lemma matrix_eqI:
  assumes A: "shaped R C A" and B: "shaped R C B"
    and eq: "\<And>i j. i < R \<Longrightarrow> j < C \<Longrightarrow> entry A i j = entry B i j"
  shows "A = B"
proof -
  from A B have len: "length (buf A) = R * C" "length (buf B) = R * C"
    and sh: "nrows A = R" "ncols A = C" "nrows B = R" "ncols B = C"
    by (simp_all add: shaped_def wf_matrix_def)
  have "buf A = buf B"
  proof (rule nth_equalityI)
    show "length (buf A) = length (buf B)" using len by simp
    fix idx assume "idx < length (buf A)"
    with len have idx: "idx < R * C" by simp
    then have "0 < C" by (cases "C = 0") simp_all
    with idx have "idx div C < R" "idx mod C < C"
      by (simp_all add: less_mult_imp_div_less)
    from eq[OF this] show "buf A ! idx = buf B ! idx"
      by (simp add: entry_def sh)
  qed
  with sh show ?thesis by simp
qed

lemma grouping_exact_in_range:
  assumes "grouping_exact temporal nonzero_inds starts"
  shows "grouping_in_range (nrows temporal) (ncols temporal) nonzero_inds starts"
  using assms unfolding grouping_exact_def grouping_in_range_def both_nonzero_def
  by (simp add: image_iff)

lemma slice_sum_all:
  assumes d: "distinct s" and s: "set s = set (map int (both_nonzero temporal a b))"
    and f: "\<And>kt. kt < ncols temporal \<Longrightarrow> entry temporal a kt = 0 \<or> entry temporal b kt = 0 \<Longrightarrow> f kt = 0"
  shows "(\<Sum>obs\<leftarrow>s. f (nat obs)) = (\<Sum>kt<ncols temporal. f kt)"
proof -
  let ?S = "{kt. kt < ncols temporal \<and> entry temporal a kt \<noteq> 0 \<and> entry temporal b kt \<noteq> 0}"
  have S: "set s = int ` ?S"
    unfolding s both_nonzero_def by auto
  have "(\<Sum>obs\<leftarrow>s. f (nat obs)) = (\<Sum>obs\<in>set s. f (nat obs))"
    using d by (simp add: sum_list_distinct_conv_sum_set)
  also have "\<dots> = (\<Sum>kt\<in>?S. f kt)"
    unfolding S by (subst sum.reindex) (simp_all add: inj_on_def)
  also have "\<dots> = (\<Sum>kt<ncols temporal. f kt)"
    by (rule sum.mono_neutral_left) (use f in auto)
  finally show ?thesis .
qed

lemma summand_zero:
  assumes "entry temporal (col div nrows base_DIF) kt = 0 \<or> entry temporal (row div nrows base_DIF) kt = 0"
  shows "summand base_DIF temporal row col kt = 0"
  using assms by (auto simp: summand_def Let_def)

lemma band_value_2_exact:
  assumes g: "grouping_exact temporal nonzero_inds starts"
    and cols: "ncols base_DIF = ncols temporal"
    and c: "c < nrows temporal * nrows base_DIF"
  shows "band_value_2 base_DIF temporal p nonzero_inds starts r c = band_value base_DIF temporal p r c"
proof -
  define n where "n = nrows base_DIF"
  define it where "it = nat ((p + 1) * int n + 1) - 1 - r"
  show ?thesis
  proof (cases "it \<le> c \<and> \<not> p < \<bar>int (c div n) - int ((c - it) div n)\<bar>")
    case False
    then show ?thesis
      unfolding band_value_2_def band_value_def Let_def n_def[symmetric] it_def[symmetric]
      by auto
  next
    case True
    from c have a: "c div n < nrows temporal" unfolding n_def by (rule div_less_blocks)
    from c True have "c - it < nrows temporal * n" by (simp add: n_def)
    then have b: "(c - it) div n < nrows temporal" by (rule div_less_blocks)
    let ?ind = "c div n * nrows temporal + (c - it) div n"
    from g a b have d: "distinct (group_slice nonzero_inds starts ?ind)"
      and s: "set (group_slice nonzero_inds starts ?ind)
              = set (map int (both_nonzero temporal (c div n) ((c - it) div n)))"
      unfolding grouping_exact_def by auto
    have "(\<Sum>obs\<leftarrow>group_slice nonzero_inds starts ?ind. summand base_DIF temporal (c - it) c (nat obs))
          = (\<Sum>kt<ncols temporal. summand base_DIF temporal (c - it) c kt)"
      by (rule slice_sum_all[OF d s]) (simp add: summand_zero n_def)
    with True show ?thesis
      unfolding band_value_2_def band_value_def Let_def n_def[symmetric] it_def[symmetric]
      by (simp add: gram_def cols)
  qed
qed

lemma ex_grouping_exact: "grouping_exact ex_temporal ex_nonzero_inds ex_starts"
  by code_simp

subsection \<open>Column selection, sums of arrays and the implied full matrix\<close>

lemma flat_div: "j < C \<Longrightarrow> (i * C + j) div C = (i::nat)"
  by simp

lemma flat_mod: "j < C \<Longrightarrow> (i * C + j) mod C = (j::nat)"
  by simp

lemma select_cols_shaped: "shaped (nrows m) (length cs) (select_cols m cs)"
  by (simp add: shaped_def wf_matrix_def select_cols_def)

lemma select_cols_entry:
  assumes "i < nrows m" "k < length cs"
  shows "entry (select_cols m cs) i k = entry m i (cs ! k)"
proof -
  from assms have lt: "i * length cs + k < nrows m * length cs" by (rule flat_index_less)
  have "entry (select_cols m cs) i k = buf (select_cols m cs) ! (i * length cs + k)"
    by (simp add: entry_def select_cols_def)
  also have "\<dots> = entry m ((i * length cs + k) div length cs)
                        (cs ! ((i * length cs + k) mod length cs))"
    using lt by (simp add: select_cols_def)
  also have "\<dots> = entry m i (cs ! k)"
    by (simp only: flat_div[OF assms(2)] flat_mod[OF assms(2)])
  finally show ?thesis .
qed

lemma select_cols_all:
  assumes "wf_matrix m"
  shows "select_cols m [0..<ncols m] = m"
proof (rule matrix_eqI[of "nrows m" "ncols m"])
  show "shaped (nrows m) (ncols m) (select_cols m [0..<ncols m])"
    using select_cols_shaped[of m "[0..<ncols m]"] by simp
  show "shaped (nrows m) (ncols m) m" using assms by (simp add: shaped_def)
  fix i j assume "i < nrows m" "j < ncols m"
  then show "entry (select_cols m [0..<ncols m]) i j = entry m i j"
    by (simp add: select_cols_entry)
qed

lemma madd_shaped:
  assumes "shaped R C a" "shaped R C b"
  shows "shaped R C (madd a b)"
  using assms by (simp add: shaped_def wf_matrix_def madd_def)

lemma madd_entry:
  assumes "shaped R C a" "shaped R C b" "i < R" "j < C"
  shows "entry (madd a b) i j = entry a i j + entry b i j"
proof -
  from assms(3,4) have "i * C + j < R * C" by (rule flat_index_less)
  with assms(1,2) show ?thesis
    by (simp add: entry_def madd_def shaped_def wf_matrix_def)
qed

lemma gram_select_cols:
  assumes "row < nrows temporal * nrows base_DIF" "col < nrows temporal * nrows base_DIF"
  shows "gram (select_cols base_DIF cs) (select_cols temporal cs) row col
         = (\<Sum>c\<leftarrow>cs. summand base_DIF temporal row col c)"
proof -
  let ?n = "nrows base_DIF"
  from assms have idx: "row div ?n < nrows temporal" "col div ?n < nrows temporal"
    "row mod ?n < ?n" "col mod ?n < ?n"
    by (simp_all only: div_less_blocks mod_less_block)
  have n: "nrows (select_cols base_DIF cs) = ?n" "ncols (select_cols base_DIF cs) = length cs"
    by (simp_all add: select_cols_def)
  have "gram (select_cols base_DIF cs) (select_cols temporal cs) row col
        = (\<Sum>k<length cs. summand base_DIF temporal row col (cs ! k))"
    unfolding gram_def n
    by (rule sum.cong) (use idx in \<open>simp_all add: summand_def Let_def n select_cols_entry\<close>)
  also have "\<dots> = (\<Sum>c\<leftarrow>cs. summand base_DIF temporal row col c)"
    by (simp add: sum_list_sum_nth lessThan_atLeast0)
  finally show ?thesis .
qed

lemma gram_restrict_cols:
  assumes "row < nrows temporal * nrows base_DIF" "col < nrows temporal * nrows base_DIF"
    and "finite A"
  shows "gram (restrict_cols base_DIF A) (restrict_cols temporal A) row col
         = (\<Sum>c\<in>A. summand base_DIF temporal row col c)"
  unfolding restrict_cols_def gram_select_cols[OF assms(1,2)]
  using assms(3) by (simp add: sum_list_distinct_conv_sum_set)

lemma band_value_restrict_cols:
  assumes "c < nrows temporal * nrows base_DIF" and "finite A"
  shows "band_value (restrict_cols base_DIF A) (restrict_cols temporal A) p r c
         = (let n = nrows base_DIF;
                it = nat ((p + 1) * int n + 1) - 1 - r
            in if it \<le> c \<and> \<not> p < \<bar>int (c div n) - int ((c - it) div n)\<bar>
               then (\<Sum>k\<in>A. summand base_DIF temporal (c - it) c k) else 0)"
proof -
  have n: "nrows (restrict_cols base_DIF A) = nrows base_DIF"
    by (simp add: restrict_cols_def select_cols_def)
  have "gram (restrict_cols base_DIF A) (restrict_cols temporal A) (c - it) c
         = (\<Sum>k\<in>A. summand base_DIF temporal (c - it) c k)" for it
    by (rule gram_restrict_cols) (use assms in auto)
  then show ?thesis
    by (simp add: band_value_def n Let_def)
qed

lemma summand_sym: "summand base_DIF temporal row col kt = summand base_DIF temporal col row kt"
  by (simp add: summand_def Let_def)

lemma gram_sym: "gram base_DIF temporal row col = gram base_DIF temporal col row"
  unfolding gram_def by (rule sum.cong) (simp_all add: summand_sym)

lemma gram_far_zero:
  assumes bc: "band_compatible temporal p" and cols: "ncols base_DIF = ncols temporal"
    and rc: "row < nrows temporal * nrows base_DIF" "col < nrows temporal * nrows base_DIF"
    and far: "p < \<bar>int (col div nrows base_DIF) - int (row div nrows base_DIF)\<bar>"
  shows "gram base_DIF temporal row col = 0"
  unfolding gram_def
proof (rule sum.neutral, rule ballI)
  fix kt assume "kt \<in> {..<ncols base_DIF}"
  with cols have kt: "kt \<in> {0..<ncols temporal}" by simp
  from rc have "col div nrows base_DIF \<in> {0..<nrows temporal}"
    "row div nrows base_DIF \<in> {0..<nrows temporal}"
    by (simp_all add: div_less_blocks)
  with bc kt far
  have "entry temporal (col div nrows base_DIF) kt * entry temporal (row div nrows base_DIF) kt = 0"
    unfolding band_compatible_def by blast
  then show "summand base_DIF temporal row col kt = 0"
    by (auto simp: summand_def Let_def)
qed

lemma block_distance_far:
  assumes "row \<le> col" "nat ((p + 1) * int n + 1) \<le> col - row" "0 \<le> p" "col < nt * n"
  shows "p < \<bar>int (col div n) - int (row div n)\<bar>"
proof -
  from assms(4) have False: "n \<noteq> 0" by (cases "n = 0") simp_all
  define d where "d = nat p + 1"
  from assms(3) have W: "nat ((p + 1) * int n + 1) = d * n + 1"
    by (simp add: d_def nat_add_distrib nat_mult_distrib algebra_simps)
  with assms(1,2) have "row + d * n \<le> col" by simp
  then have "(row + d * n) div n \<le> col div n" by (rule div_le_mono)
  with False have "row div n + d \<le> col div n" by simp
  with assms(3) show ?thesis by (simp add: d_def)
qed

lemma full_entry_gram:
  assumes B: "shaped (nat ((p + 1) * int (nrows base_DIF) + 1)) (nrows temporal * nrows base_DIF) B"
    "\<forall>r<nat ((p + 1) * int (nrows base_DIF) + 1). \<forall>c<nrows temporal * nrows base_DIF.
        entry B r c = band_value base_DIF temporal p r c"
    and bc: "band_compatible temporal p" and cols: "ncols base_DIF = ncols temporal"
    and p: "0 \<le> p"
    and rc: "r < nrows temporal * nrows base_DIF" "c < nrows temporal * nrows base_DIF"
  shows "full_entry B r c = gram base_DIF temporal r c"
proof -
  let ?n = "nrows base_DIF"
  let ?W = "nat ((p + 1) * int ?n + 1)"
  have main: "full_entry B row col = gram base_DIF temporal row col"
    "full_entry B col row = gram base_DIF temporal row col"
    if le: "row \<le> col" and lt: "row < nrows temporal * ?n" "col < nrows temporal * ?n" for row col
  proof -
    from B(1) have W: "nrows B = ?W" by (simp add: shaped_def)
    from le have mm: "min row col = row" "max row col = col" "min col row = row" "max col row = col"
      by simp_all
    have "(if col - row < ?W then entry B (?W - 1 - (col - row)) col else 0)
          = gram base_DIF temporal row col"
    proof (cases "col - row < ?W")
      case True
      then have it: "?W - 1 - (col - row) < ?W" "?W - 1 - (?W - 1 - (col - row)) = col - row"
        by simp_all
      from B(2) it(1) lt(2)
      have "entry B (?W - 1 - (col - row)) col
            = band_value base_DIF temporal p (?W - 1 - (col - row)) col" by blast
      also have "\<dots> = gram base_DIF temporal row col"
      proof (cases "p < \<bar>int (col div ?n) - int (row div ?n)\<bar>")
        case far: True
        with gram_far_zero[OF bc cols lt far] le show ?thesis
          unfolding band_value_def Let_def it(2) by simp
      next
        case False
        with le show ?thesis unfolding band_value_def Let_def it(2) by simp
      qed
      finally show ?thesis using True by simp
    next
      case False
      then have "?W \<le> col - row" by simp
      from block_distance_far[OF le this p lt(2)] gram_far_zero[OF bc cols lt] False
      show ?thesis by simp
    qed
    then show "full_entry B row col = gram base_DIF temporal row col"
      "full_entry B col row = gram base_DIF temporal row col"
      unfolding full_entry_def Let_def mm W by simp_all
  qed
  show ?thesis
  proof (cases "r \<le> c")
    case True
    from main(1)[OF True rc] show ?thesis .
  next
    case False
    then have "c \<le> r" by simp
    from main(2)[OF this rc(2,1)] show ?thesis by (simp add: gram_sym)
  qed
qed

lemma quad_form_gram_nonneg:
  "0 \<le> quad_form N (gram base_DIF temporal) v"
proof -
  define a where "a kt r = entry temporal (r div nrows base_DIF) kt
                            * entry base_DIF (r mod nrows base_DIF) kt" for kt r
  have s: "summand base_DIF temporal r c kt = a kt r * a kt c" for r c kt
    by (simp add: summand_def Let_def a_def)
  have "quad_form N (gram base_DIF temporal) v
        = (\<Sum>r<N. \<Sum>c<N. \<Sum>kt<ncols base_DIF. (v r * a kt r) * (v c * a kt c))"
    unfolding quad_form_def gram_def s
    by (simp add: sum_distrib_left sum_distrib_right mult_ac)
  also have "\<dots> = (\<Sum>r<N. \<Sum>kt<ncols base_DIF. \<Sum>c<N. (v r * a kt r) * (v c * a kt c))"
    by (rule sum.cong[OF refl]) (rule sum.swap)
  also have "\<dots> = (\<Sum>kt<ncols base_DIF. \<Sum>r<N. \<Sum>c<N. (v r * a kt r) * (v c * a kt c))"
    by (rule sum.swap)
  also have "\<dots> = (\<Sum>kt<ncols base_DIF. (\<Sum>r<N. v r * a kt r) * (\<Sum>c<N. v c * a kt c))"
    by (simp add: sum_product)
  also have "\<dots> = (\<Sum>kt<ncols base_DIF. (\<Sum>r<N. v r * a kt r)\<^sup>2)"
    by (simp add: power2_eq_square)
  also have "0 \<le> \<dots>"
    by (rule sum_nonneg) simp
  finally show ?thesis .
qed

lemma ones_result:
  "build_banded ones_base ones_temporal 1
   = Inr \<lparr>nrows = 3, ncols = 3, buf = [0, 0, 0,  0, 1, 1,  1, 1, 1]\<rparr>"
  by code_simp

subsection \<open>Loops that do nothing, prefixes of the inputs\<close>

lemma for_each_id:
  assumes "\<And>x. x \<in> set xs \<Longrightarrow> body x s = Inr s"
  shows "for_each xs body s = Inr s"
  using assms by (induction xs) simp_all

lemma for_each_Inr: "for_each xs (\<lambda>x. Inr) = Inr"
proof
  fix s :: 'a
  show "for_each xs (\<lambda>x. Inr) s = Inr s" by (induction xs) simp_all
qed

lemma for_each_fail:
  assumes "\<And>y. y \<in> set xs \<Longrightarrow> body y s = Inr s" and "body x s = Inl e"
  shows "for_each (xs @ x # ys) body s = Inl e"
  using assms by (induction xs) simp_all

lemma np_zeros_neg: "r < 0 \<Longrightarrow> np_zeros r c = Inl ValueError"
  by (simp add: np_zeros_def)

lemma np_zeros_nonneg:
  assumes "0 \<le> r"
  shows "np_zeros r (int a * int b) = Inr (zeros (nat r) (a * b))"
proof -
  have "int a * int b = int (a * b)" by simp
  with assms show ?thesis
    unfolding np_zeros_def zeros_def by (simp del: of_nat_mult)
qed

lemma py_range_split:
  assumes "L < n"
  shows "py_range 0 (int n) = py_range 0 (int L) @ int L # py_range (int L + 1) (int n)"
proof -
  from assms have "[0..<n] = [0..<L] @ L # [Suc L..<n]"
    by (metis le_add2 less_imp_add_positive upt_add_eq_append upt_conv_Cons zero_le add.commute)
  moreover have "nat (int n - (int L + 1)) = n - Suc L" by simp
  moreover have "map (\<lambda>k. int k) [Suc L..<n] = map (\<lambda>k. int L + 1 + int k) [0..<n - Suc L]"
    by (rule nth_equalityI) simp_all
  ultimately show ?thesis
    by (simp add: py_range_def)
qed

lemma select_prefix_entry:
  assumes "i < nrows m" "k < nd"
  shows "entry (select_cols m [0..<nd]) i k = entry m i k"
  using assms by (simp add: select_cols_entry)

lemma band_value_prefix:
  assumes "c < nrows temporal * nrows base_DIF"
  shows "band_value base_DIF (select_cols temporal [0..<ncols base_DIF]) p r c
         = band_value base_DIF temporal p r c"
proof -
  let ?n = "nrows base_DIF"
  let ?T = "select_cols temporal [0..<ncols base_DIF]"
  have "gram base_DIF ?T row c = gram base_DIF temporal row c"
    if "row \<le> c" for row
  proof -
    from that assms have "row < nrows temporal * ?n" by simp
    with assms have idx: "row div ?n < nrows temporal" "c div ?n < nrows temporal"
      by (simp_all only: div_less_blocks)
    show ?thesis
      unfolding gram_def
      by (rule sum.cong) (use idx in \<open>simp_all add: summand_def Let_def select_prefix_entry\<close>)
  qed
  then show ?thesis
    unfolding band_value_def Let_def by simp
qed

lemma group_slice_append:
  assumes "ind + 1 < length starts"
  shows "group_slice nonzero_inds (starts @ extra) ind = group_slice nonzero_inds starts ind"
  using assms by (simp add: group_slice_def nth_append)

lemma grouping_in_range_append:
  assumes "grouping_in_range n_t nd nonzero_inds starts"
  shows "grouping_in_range n_t nd nonzero_inds (starts @ extra)"
  unfolding grouping_in_range_def
proof (intro allI impI)
  fix it_t jt_t assume "it_t < n_t" "jt_t < n_t"
  with assms have g: "it_t * n_t + jt_t + 1 < length starts"
    "c_int (int (it_t * n_t + jt_t + 1))"
    "c_int (starts ! (it_t * n_t + jt_t))" "c_int (starts ! (it_t * n_t + jt_t + 1))"
    "\<forall>kt\<in>set (py_range (starts ! (it_t * n_t + jt_t)) (starts ! (it_t * n_t + jt_t + 1))).
        0 \<le> kt \<and> kt < int (length nonzero_inds)"
    "\<forall>obs\<in>set (group_slice nonzero_inds starts (it_t * n_t + jt_t)). 0 \<le> obs \<and> obs < int nd"
    unfolding grouping_in_range_def by blast+
  from g(1) have nth: "(starts @ extra) ! (it_t * n_t + jt_t) = starts ! (it_t * n_t + jt_t)"
    "(starts @ extra) ! (it_t * n_t + jt_t + 1) = starts ! (it_t * n_t + jt_t + 1)"
    by (simp_all add: nth_append)
  from g show "it_t * n_t + jt_t + 1 < length (starts @ extra) \<and>
       c_int (int (it_t * n_t + jt_t + 1)) \<and>
       c_int ((starts @ extra) ! (it_t * n_t + jt_t)) \<and>
       c_int ((starts @ extra) ! (it_t * n_t + jt_t + 1)) \<and>
       (\<forall>kt\<in>set (py_range ((starts @ extra) ! (it_t * n_t + jt_t))
                     ((starts @ extra) ! (it_t * n_t + jt_t + 1))).
           0 \<le> kt \<and> kt < int (length nonzero_inds)) \<and>
       (\<forall>obs\<in>set (group_slice nonzero_inds (starts @ extra) (it_t * n_t + jt_t)).
           0 \<le> obs \<and> obs < int nd)"
    unfolding nth group_slice_append[OF g(1)] by simp
qed

lemma band_value_2_append:
  assumes g: "grouping_in_range (nrows temporal) nd nonzero_inds starts"
    and c: "c < nrows temporal * nrows base_DIF"
  shows "band_value_2 base_DIF temporal p nonzero_inds (starts @ extra) r c
         = band_value_2 base_DIF temporal p nonzero_inds starts r c"
proof -
  let ?n = "nrows base_DIF"
  have "group_slice nonzero_inds (starts @ extra) (c div ?n * nrows temporal + (c - it) div ?n)
        = group_slice nonzero_inds starts (c div ?n * nrows temporal + (c - it) div ?n)" for it
  proof -
    from c have "c - it < nrows temporal * ?n" by simp
    with c have "c div ?n < nrows temporal" "(c - it) div ?n < nrows temporal"
      by (simp_all only: div_less_blocks)
    with g have "c div ?n * nrows temporal + (c - it) div ?n + 1 < length starts"
      unfolding grouping_in_range_def by blast
    then show ?thesis by (rule group_slice_append)
  qed
  then show ?thesis
    unfolding band_value_2_def Let_def by simp
qed

section \<open>The dense assembler\<close>

text \<open>
  Claim C1. For basis matrices \<open>base_DIF\<close> (\<open>n_coeffs \<times> n_data\<close>) and \<open>temporal\<close>
  (\<open>n_t \<times> n_data\<close>) with the same number of observations and a band parameter \<open>p \<ge> 0\<close>,
  \<^verbatim>\<open>build_banded\<close> returns an array of shape \<open>((p+1) * n_coeffs + 1) \<times> (n_t * n_coeffs)\<close>.
  For every entry \<open>(row, col)\<close> of the full matrix with \<open>row \<le> col\<close>, \<open>col - row\<close> below the
  bandwidth and temporal blocks at most \<open>p\<close> apart, the cell
  \<^verbatim>\<open>banded[bandwidth-1-(col-row), col]\<close> holds the sum over all observations \<open>kt\<close> of
  \<^verbatim>\<open>temporal[col // n_coeffs, kt] * base_DIF[col % n_coeffs, kt] * temporal[row // n_coeffs, kt]
  * base_DIF[row % n_coeffs, kt]\<close>. The band parameter, the sizes, the bandwidth and the number
  of columns are within the range of the C \<^verbatim>\<open>int\<close> that holds them (\<open>ints_fit\<close>).
\<close>

theorem build_banded_band_entries:
  assumes "wf_matrix base_DIF" and "wf_matrix temporal"
    and "ncols base_DIF = ncols temporal" and "0 \<le> p"
    and "ints_fit base_DIF temporal p ((p + 1) * int (nrows base_DIF) + 1)"
  shows "\<exists>banded. build_banded base_DIF temporal p = Inr banded \<and> wf_matrix banded \<and>
           int (nrows banded) = (p + 1) * int (nrows base_DIF) + 1 \<and>
           ncols banded = nrows temporal * nrows base_DIF \<and>
           (\<forall>row col. row \<le> col \<and> col < nrows temporal * nrows base_DIF \<and>
               col - row < nrows banded \<and>
               \<bar>int (col div nrows base_DIF) - int (row div nrows base_DIF)\<bar> \<le> p \<longrightarrow>
               entry banded (nrows banded - 1 - (col - row)) col =
                 (\<Sum>kt<ncols base_DIF.
                    entry temporal (col div nrows base_DIF) kt
                    * entry base_DIF (col mod nrows base_DIF) kt
                    * entry temporal (row div nrows base_DIF) kt
                    * entry base_DIF (row mod nrows base_DIF) kt))"
proof -
  let ?W = "nat ((p + 1) * int (nrows base_DIF) + 1)"
  let ?N = "nrows temporal * nrows base_DIF"
  from assms(4) have bw: "0 \<le> (p + 1) * int (nrows base_DIF) + 1" by simp
  from build_banded_entries[of base_DIF temporal p] assms(3) bw
  obtain B where B: "build_banded base_DIF temporal p = Inr B" "shaped ?W ?N B"
    "\<forall>r<?W. \<forall>c<?N. entry B r c = band_value base_DIF temporal p r c"
    by auto
  have "entry B (nrows B - 1 - (col - row)) col = gram base_DIF temporal row col"
    if "row \<le> col" "col < ?N" "col - row < nrows B"
      "\<bar>int (col div nrows base_DIF) - int (row div nrows base_DIF)\<bar> \<le> p" for row col
  proof -
    from B(2) have W: "nrows B = ?W" by (simp add: shaped_def)
    with that have r: "?W - 1 - (col - row) < ?W" by simp
    have it: "?W - 1 - (?W - 1 - (col - row)) = col - row"
      using that(3) W by simp
    from B(3) r that(2)
    have "entry B (?W - 1 - (col - row)) col
          = band_value base_DIF temporal p (?W - 1 - (col - row)) col" by blast
    also have "\<dots> = gram base_DIF temporal row col"
      unfolding band_value_def Let_def it using that(1,4) by simp
    finally show ?thesis by (simp add: W)
  qed
  moreover from B(2) bw have "wf_matrix B" "int (nrows B) = (p + 1) * int (nrows base_DIF) + 1"
    "ncols B = ?N"
    by (simp_all add: shaped_def)
  ultimately show ?thesis using B(1)
    by (auto simp: gram_def summand_def Let_def)
qed

theorem build_banded_band_entries_witness:
  "wf_matrix ex_base \<and> wf_matrix ex_temporal \<and> ncols ex_base = ncols ex_temporal \<and> (0::int) \<le> 1 \<and>
   ints_fit ex_base ex_temporal 1 ((1 + 1) * int (nrows ex_base) + 1) \<and>
   (\<exists>banded. build_banded ex_base ex_temporal 1 = Inr banded \<and> wf_matrix banded \<and>
      nrows banded = 5 \<and> ncols banded = 6 \<and>
      entry banded (nrows banded - 1 - (3 - 1)) 3 = 2)"
proof -
  have h: "wf_matrix ex_base" "wf_matrix ex_temporal" "ncols ex_base = ncols ex_temporal"
    by (simp_all add: wf_matrix_def ex_base_def ex_temporal_def)
  have f: "ints_fit ex_base ex_temporal 1 ((1 + 1) * int (nrows ex_base) + 1)"
    by (simp add: ints_fit_def c_int_def ex_base_def ex_temporal_def)
  from build_banded_band_entries[OF h _ f]
  obtain banded where b: "build_banded ex_base ex_temporal 1 = Inr banded" "wf_matrix banded"
    "int (nrows banded) = (1 + 1) * int (nrows ex_base) + 1"
    "ncols banded = nrows ex_temporal * nrows ex_base"
    and e: "\<And>row col. row \<le> col \<and> col < nrows ex_temporal * nrows ex_base \<and>
               col - row < nrows banded \<and>
               \<bar>int (col div nrows ex_base) - int (row div nrows ex_base)\<bar> \<le> 1 \<Longrightarrow>
               entry banded (nrows banded - 1 - (col - row)) col =
                 (\<Sum>kt<ncols ex_base.
                    entry ex_temporal (col div nrows ex_base) kt
                    * entry ex_base (col mod nrows ex_base) kt
                    * entry ex_temporal (row div nrows ex_base) kt
                    * entry ex_base (row mod nrows ex_base) kt)"
    by auto
  from b(3) have n: "nrows banded = 5" by (simp add: ex_base_def)
  from b(4) have c: "ncols banded = 6" by (simp add: ex_base_def ex_temporal_def)
  have "entry banded (nrows banded - 1 - (3 - 1)) 3 = 
      (\<Sum>kt<ncols ex_base.
                    entry ex_temporal (3 div nrows ex_base) kt
                    * entry ex_base (3 mod nrows ex_base) kt
                    * entry ex_temporal (1 div nrows ex_base) kt
                    * entry ex_base (1 mod nrows ex_base) kt)"
    by (rule e) (simp add: n ex_base_def ex_temporal_def)
  also have "\<dots> = 2"
    by (simp add: ex_base_def ex_temporal_def entry_def lessThan_nat_numeral lessThan_Suc)
  finally show ?thesis using h f b n c by simp
qed

text \<open>
  Claim C10. For valid input with \<open>p \<ge> 0\<close>, every cell of the last band row of the result of
  \<^verbatim>\<open>build_banded\<close> (row \<open>bandwidth - 1\<close>, the main diagonal of the full matrix) is the sum
  over the observations \<open>kt\<close> of \<open>(temporal[t, kt] * base_DIF[s, kt])\<^sup>2\<close>, where \<open>(t, s)\<close>
  are the temporal block and the spatial index of the column; it is therefore not negative.
  Valid input keeps the C integers in range (\<open>ints_fit\<close>).
\<close>

theorem build_banded_diagonal:
  assumes "wf_matrix base_DIF" and "wf_matrix temporal"
    and "ncols base_DIF = ncols temporal" and "0 \<le> p"
    and "ints_fit base_DIF temporal p ((p + 1) * int (nrows base_DIF) + 1)"
  shows "\<exists>banded. build_banded base_DIF temporal p = Inr banded \<and>
           int (nrows banded) = (p + 1) * int (nrows base_DIF) + 1 \<and>
           (\<forall>col<nrows temporal * nrows base_DIF.
              entry banded (nrows banded - 1) col =
                (\<Sum>kt<ncols base_DIF.
                   (entry temporal (col div nrows base_DIF) kt
                    * entry base_DIF (col mod nrows base_DIF) kt)\<^sup>2) \<and>
              0 \<le> entry banded (nrows banded - 1) col)"
proof -
  let ?W = "nat ((p + 1) * int (nrows base_DIF) + 1)"
  let ?N = "nrows temporal * nrows base_DIF"
  let ?n = "nrows base_DIF"
  from assms(4) have bw: "0 \<le> (p + 1) * int ?n + 1" and Wpos: "0 < ?W" by simp_all
  from build_banded_entries[of base_DIF temporal p] assms(3) bw
  obtain B where B: "build_banded base_DIF temporal p = Inr B" "shaped ?W ?N B"
    "\<forall>r<?W. \<forall>c<?N. entry B r c = band_value base_DIF temporal p r c"
    by auto
  from B(2) bw have WB: "nrows B = ?W" "int (nrows B) = (p + 1) * int ?n + 1"
    by (simp_all add: shaped_def)
  have d: "entry B (nrows B - 1) col =
      (\<Sum>kt<ncols base_DIF. (entry temporal (col div ?n) kt * entry base_DIF (col mod ?n) kt)\<^sup>2)"
    if "col < ?N" for col
  proof -
    from B(3) Wpos that have "entry B (?W - 1) col = band_value base_DIF temporal p (?W - 1) col"
      by simp
    also have "\<dots> = gram base_DIF temporal col col"
      unfolding band_value_def Let_def using assms(4) by simp
    also have "\<dots> = (\<Sum>kt<ncols base_DIF.
        (entry temporal (col div ?n) kt * entry base_DIF (col mod ?n) kt)\<^sup>2)"
      unfolding gram_def summand_def Let_def
      by (rule sum.cong) (simp_all add: power2_eq_square)
    finally show ?thesis by (simp add: WB(1))
  qed
  have "0 \<le> entry B (nrows B - 1) col" if "col < ?N" for col
    unfolding d[OF that] by (rule sum_nonneg) simp
  with d B(1) WB(2) show ?thesis by blast
qed

theorem build_banded_diagonal_witness:
  "wf_matrix ex_base \<and> wf_matrix ex_temporal \<and> ncols ex_base = ncols ex_temporal \<and> (0::int) \<le> 1 \<and>
   ints_fit ex_base ex_temporal 1 ((1 + 1) * int (nrows ex_base) + 1) \<and>
   (\<exists>banded. build_banded ex_base ex_temporal 1 = Inr banded \<and> nrows banded = 5 \<and>
      entry banded (nrows banded - 1) 3 = 14 \<and> 0 \<le> entry banded (nrows banded - 1) 3)"
proof -
  have h: "wf_matrix ex_base" "wf_matrix ex_temporal" "ncols ex_base = ncols ex_temporal"
    by (simp_all add: wf_matrix_def ex_base_def ex_temporal_def)
  have f: "ints_fit ex_base ex_temporal 1 ((1 + 1) * int (nrows ex_base) + 1)"
    by (simp add: ints_fit_def c_int_def ex_base_def ex_temporal_def)
  from build_banded_diagonal[OF h _ f]
  obtain banded where b: "build_banded ex_base ex_temporal 1 = Inr banded"
    "int (nrows banded) = (1 + 1) * int (nrows ex_base) + 1"
    "\<forall>col<nrows ex_temporal * nrows ex_base.
        entry banded (nrows banded - 1) col =
          (\<Sum>kt<ncols ex_base.
             (entry ex_temporal (col div nrows ex_base) kt
              * entry ex_base (col mod nrows ex_base) kt)\<^sup>2) \<and>
        0 \<le> entry banded (nrows banded - 1) col"
    by auto
  from b(2) have n: "nrows banded = 5" by (simp add: ex_base_def)
  have "(3::nat) < nrows ex_temporal * nrows ex_base"
    by (simp add: ex_base_def ex_temporal_def)
  with b(3) have e: "entry banded (nrows banded - 1) 3 =
          (\<Sum>kt<ncols ex_base.
             (entry ex_temporal (3 div nrows ex_base) kt
              * entry ex_base (3 mod nrows ex_base) kt)\<^sup>2)"
    and nonneg: "0 \<le> entry banded (nrows banded - 1) 3" by blast+
  have "(\<Sum>kt<ncols ex_base.
             (entry ex_temporal (3 div nrows ex_base) kt
              * entry ex_base (3 mod nrows ex_base) kt)\<^sup>2) = 14"
    by (simp add: ex_base_def ex_temporal_def entry_def lessThan_nat_numeral lessThan_Suc)
  with e nonneg h f b(1) n show ?thesis by simp
qed

section \<open>The index-accelerated assembler\<close>

text \<open>
  Claim C2. When the slice of every group \<open>ind = it_t * n_t + jt_t\<close> lists exactly the
  observations at which both \<open>temporal[it_t, .]\<close> and \<open>temporal[jt_t, .]\<close> are nonzero (each
  of them once, as a grouping does), \<^verbatim>\<open>build_banded_2\<close> returns the very array that
  \<^verbatim>\<open>build_banded\<close> returns on the same basis matrices and band parameter. The C integers
  are in range (\<open>ints_fit\<close>, and the offsets and group indices in \<open>grouping_exact\<close>).
\<close>

theorem build_banded_2_refines:
  assumes "wf_matrix base_DIF" and "wf_matrix temporal"
    and "ncols base_DIF = ncols temporal" and "0 \<le> p"
    and "grouping_exact temporal nonzero_inds starts"
    and "ints_fit base_DIF temporal p ((p + 1) * int (nrows base_DIF) + 1)"
  shows "\<exists>banded. build_banded base_DIF temporal p = Inr banded \<and>
           build_banded_2 base_DIF temporal p nonzero_inds starts = Inr banded"
proof -
  let ?W = "nat ((p + 1) * int (nrows base_DIF) + 1)"
  let ?N = "nrows temporal * nrows base_DIF"
  from assms(4) have bw: "0 \<le> (p + 1) * int (nrows base_DIF) + 1" by simp
  from build_banded_entries[of base_DIF temporal p] assms(3) bw
  obtain B where B: "build_banded base_DIF temporal p = Inr B" "shaped ?W ?N B"
    "\<forall>r<?W. \<forall>c<?N. entry B r c = band_value base_DIF temporal p r c"
    by auto
  from build_banded_2_entries[OF grouping_exact_in_range[OF assms(5)] _ _ bw] assms(3)
  obtain B2 where B2: "build_banded_2 base_DIF temporal p nonzero_inds starts = Inr B2"
    "shaped ?W ?N B2"
    "\<forall>r<?W. \<forall>c<?N. entry B2 r c = band_value_2 base_DIF temporal p nonzero_inds starts r c"
    by auto
  have "B2 = B"
  proof (rule matrix_eqI[OF B2(2) B(2)])
    fix i j assume "i < ?W" "j < ?N"
    with B(3) B2(3) band_value_2_exact[OF assms(5,3)] show "entry B2 i j = entry B i j"
      by simp
  qed
  with B(1) B2(1) show ?thesis by simp
qed

theorem build_banded_2_refines_witness:
  "wf_matrix ex_base \<and> wf_matrix ex_temporal \<and> ncols ex_base = ncols ex_temporal \<and> (0::int) \<le> 1 \<and>
   ints_fit ex_base ex_temporal 1 ((1 + 1) * int (nrows ex_base) + 1) \<and>
   grouping_exact ex_temporal ex_nonzero_inds ex_starts \<and>
   (\<exists>banded. build_banded ex_base ex_temporal 1 = Inr banded \<and>
      build_banded_2 ex_base ex_temporal 1 ex_nonzero_inds ex_starts = Inr banded)"
proof -
  have h: "wf_matrix ex_base" "wf_matrix ex_temporal" "ncols ex_base = ncols ex_temporal"
    by (simp_all add: wf_matrix_def ex_base_def ex_temporal_def)
  have f: "ints_fit ex_base ex_temporal 1 ((1 + 1) * int (nrows ex_base) + 1)"
    by (simp add: ints_fit_def c_int_def ex_base_def ex_temporal_def)
  note g = ex_grouping_exact
  from build_banded_2_refines[OF h _ g f] h g f show ?thesis by simp
qed

text \<open>
  Claim C7. In the results of \<^verbatim>\<open>build_banded\<close> and of \<^verbatim>\<open>build_banded_2\<close>, a cell
  \<^verbatim>\<open>banded[bandwidth-1-(col-row), col]\<close> with \<open>row \<le> col\<close> and \<open>col - row\<close> below the bandwidth
  whose temporal blocks are more than \<open>p\<close> apart is exactly \<open>0\<close>. For \<^verbatim>\<open>build_banded_2\<close>
  the input is valid when every index the grouping holds is in range; for both, when the
  C integers are in range (\<open>ints_fit\<close>).
\<close>

theorem band_zero:
  assumes "wf_matrix base_DIF" and "wf_matrix temporal"
    and "ncols base_DIF = ncols temporal" and "0 \<le> p"
    and "ints_fit base_DIF temporal p ((p + 1) * int (nrows base_DIF) + 1)"
  shows "(\<exists>banded. build_banded base_DIF temporal p = Inr banded \<and>
            int (nrows banded) = (p + 1) * int (nrows base_DIF) + 1 \<and>
            (\<forall>row col. row \<le> col \<and> col < nrows temporal * nrows base_DIF \<and>
                col - row < nrows banded \<and>
                p < \<bar>int (col div nrows base_DIF) - int (row div nrows base_DIF)\<bar> \<longrightarrow>
                entry banded (nrows banded - 1 - (col - row)) col = 0)) \<and>
         (\<forall>nonzero_inds starts.
            grouping_in_range (nrows temporal) (ncols temporal) nonzero_inds starts \<longrightarrow>
            (\<exists>banded. build_banded_2 base_DIF temporal p nonzero_inds starts = Inr banded \<and>
               int (nrows banded) = (p + 1) * int (nrows base_DIF) + 1 \<and>
               (\<forall>row col. row \<le> col \<and> col < nrows temporal * nrows base_DIF \<and>
                   col - row < nrows banded \<and>
                   p < \<bar>int (col div nrows base_DIF) - int (row div nrows base_DIF)\<bar> \<longrightarrow>
                   entry banded (nrows banded - 1 - (col - row)) col = 0)))"
proof -
  let ?W = "nat ((p + 1) * int (nrows base_DIF) + 1)"
  let ?N = "nrows temporal * nrows base_DIF"
  let ?n = "nrows base_DIF"
  from assms(4) have bw: "0 \<le> (p + 1) * int ?n + 1" by simp
  have idx: "?W - 1 - (col - row) < ?W \<and> ?W - 1 - (?W - 1 - (col - row)) = col - row"
    if "col - row < ?W" for row col
    using that by simp
  have z1: "band_value base_DIF temporal p (?W - 1 - (col - row)) col = 0"
    if "row \<le> col" "col - row < ?W" "p < \<bar>int (col div ?n) - int (row div ?n)\<bar>" for row col
    unfolding band_value_def Let_def using idx[OF that(2)] that(1,3) by simp
  have z2: "band_value_2 base_DIF temporal p nz st (?W - 1 - (col - row)) col = 0"
    if "row \<le> col" "col - row < ?W" "p < \<bar>int (col div ?n) - int (row div ?n)\<bar>" for row col nz st
    unfolding band_value_2_def Let_def using idx[OF that(2)] that(1,3) by simp
  from build_banded_entries[of base_DIF temporal p] assms(3) bw
  obtain B where B: "build_banded base_DIF temporal p = Inr B" "shaped ?W ?N B"
    "\<forall>r<?W. \<forall>c<?N. entry B r c = band_value base_DIF temporal p r c"
    by auto
  from B(2) bw have WB: "nrows B = ?W" "int (nrows B) = (p + 1) * int ?n + 1"
    by (simp_all add: shaped_def)
  have first: "entry B (nrows B - 1 - (col - row)) col = 0"
    if "row \<le> col" "col < ?N" "col - row < nrows B"
       "p < \<bar>int (col div ?n) - int (row div ?n)\<bar>" for row col
    using B(3) idx[of col row] z1[of row col] that unfolding WB(1) by simp
  have second: "\<exists>banded. build_banded_2 base_DIF temporal p nz st = Inr banded \<and>
               int (nrows banded) = (p + 1) * int ?n + 1 \<and>
               (\<forall>row col. row \<le> col \<and> col < ?N \<and> col - row < nrows banded \<and>
                   p < \<bar>int (col div ?n) - int (row div ?n)\<bar> \<longrightarrow>
                   entry banded (nrows banded - 1 - (col - row)) col = 0)"
    if g: "grouping_in_range (nrows temporal) (ncols temporal) nz st" for nz st
  proof -
    from build_banded_2_entries[OF g _ _ bw] assms(3)
    obtain B2 where B2: "build_banded_2 base_DIF temporal p nz st = Inr B2" "shaped ?W ?N B2"
      "\<forall>r<?W. \<forall>c<?N. entry B2 r c = band_value_2 base_DIF temporal p nz st r c"
      by auto
    from B2(2) bw have W2: "nrows B2 = ?W" "int (nrows B2) = (p + 1) * int ?n + 1"
      by (simp_all add: shaped_def)
    have "entry B2 (nrows B2 - 1 - (col - row)) col = 0"
      if "row \<le> col" "col < ?N" "col - row < nrows B2"
         "p < \<bar>int (col div ?n) - int (row div ?n)\<bar>" for row col
      using B2(3) idx[of col row] z2[of row col] that unfolding W2(1) by simp
    with B2(1) W2(2) show ?thesis by blast
  qed
  from B(1) WB(2) first second show ?thesis by blast
qed

theorem band_zero_witness:
  "wf_matrix ex_base \<and> wf_matrix ex_temporal \<and> ncols ex_base = ncols ex_temporal \<and> (0::int) \<le> 1 \<and>
   ints_fit ex_base ex_temporal 1 ((1 + 1) * int (nrows ex_base) + 1) \<and>
   grouping_in_range (nrows ex_temporal) (ncols ex_temporal) ex_nonzero_inds ex_starts \<and>
   (1::int) < \<bar>int (4 div nrows ex_base) - int (1 div nrows ex_base)\<bar> \<and>
   (\<exists>b1 b2. build_banded ex_base ex_temporal 1 = Inr b1 \<and>
      build_banded_2 ex_base ex_temporal 1 ex_nonzero_inds ex_starts = Inr b2 \<and>
      nrows b1 = 5 \<and> nrows b2 = 5 \<and>
      entry b1 (5 - 1 - (4 - 1)) 4 = 0 \<and> entry b2 (5 - 1 - (4 - 1)) 4 = 0)"
proof -
  have h: "wf_matrix ex_base" "wf_matrix ex_temporal" "ncols ex_base = ncols ex_temporal"
    by (simp_all add: wf_matrix_def ex_base_def ex_temporal_def)
  have f: "ints_fit ex_base ex_temporal 1 ((1 + 1) * int (nrows ex_base) + 1)"
    by (simp add: ints_fit_def c_int_def ex_base_def ex_temporal_def)
  have g: "grouping_in_range (nrows ex_temporal) (ncols ex_temporal) ex_nonzero_inds ex_starts"
    by (rule grouping_exact_in_range) (rule ex_grouping_exact)
  have far: "(1::int) < \<bar>int (4 div nrows ex_base) - int (1 div nrows ex_base)\<bar>"
    by (simp add: ex_base_def)
  from band_zero[OF h _ f] g
  obtain b1 b2 where b1: "build_banded ex_base ex_temporal 1 = Inr b1"
      "int (nrows b1) = (1 + 1) * int (nrows ex_base) + 1"
      "\<And>row col. row \<le> col \<and> col < nrows ex_temporal * nrows ex_base \<and>
                col - row < nrows b1 \<and>
                1 < \<bar>int (col div nrows ex_base) - int (row div nrows ex_base)\<bar> \<Longrightarrow>
                entry b1 (nrows b1 - 1 - (col - row)) col = 0"
    and b2: "build_banded_2 ex_base ex_temporal 1 ex_nonzero_inds ex_starts = Inr b2"
      "int (nrows b2) = (1 + 1) * int (nrows ex_base) + 1"
      "\<And>row col. row \<le> col \<and> col < nrows ex_temporal * nrows ex_base \<and>
                col - row < nrows b2 \<and>
                1 < \<bar>int (col div nrows ex_base) - int (row div nrows ex_base)\<bar> \<Longrightarrow>
                entry b2 (nrows b2 - 1 - (col - row)) col = 0"
    by (simp del: One_nat_def) blast
  from b1(2) b2(2) have n: "nrows b1 = 5" "nrows b2 = 5" by (simp_all add: ex_base_def)
  have "entry b1 (nrows b1 - 1 - (4 - 1)) 4 = 0"
    by (rule b1(3)) (simp add: n ex_base_def ex_temporal_def)
  moreover have "entry b2 (nrows b2 - 1 - (4 - 1)) 4 = 0"
    by (rule b2(3)) (simp add: n ex_base_def ex_temporal_def)
  ultimately show ?thesis using h f g far b1(1) b2(1) n by auto
qed

section \<open>Algebraic properties of the dense assembler\<close>

text \<open>
  Claim C8. For \<open>p \<ge> 0\<close> and two disjoint sets \<open>A\<close> and \<open>B\<close> of observation columns, the array
  that \<^verbatim>\<open>build_banded\<close> returns on the basis matrices restricted to the columns \<open>A \<union> B\<close> is
  the entrywise sum of the arrays it returns on the columns of \<open>A\<close> alone and of \<open>B\<close> alone.
  When \<open>A\<close> and \<open>B\<close> partition all the observation columns, the restriction to \<open>A \<union> B\<close> is
  the input itself. The C integers of the call on all columns are in range (\<open>ints_fit\<close>);
  those of the calls on fewer columns are then in range too.
\<close>

theorem build_banded_additive:
  assumes "wf_matrix base_DIF" and "wf_matrix temporal"
    and "ncols base_DIF = ncols temporal" and "0 \<le> p"
    and "A \<inter> B = {}" and "A \<union> B \<subseteq> {0..<ncols base_DIF}"
    and "ints_fit base_DIF temporal p ((p + 1) * int (nrows base_DIF) + 1)"
  shows "\<exists>M MA MB.
           build_banded (restrict_cols base_DIF (A \<union> B)) (restrict_cols temporal (A \<union> B)) p = Inr M \<and>
           build_banded (restrict_cols base_DIF A) (restrict_cols temporal A) p = Inr MA \<and>
           build_banded (restrict_cols base_DIF B) (restrict_cols temporal B) p = Inr MB \<and>
           M = madd MA MB \<and>
           (A \<union> B = {0..<ncols base_DIF} \<longrightarrow> build_banded base_DIF temporal p = Inr M)"
proof -
  let ?n = "nrows base_DIF"
  let ?W = "nat ((p + 1) * int ?n + 1)"
  let ?N = "nrows temporal * ?n"
  from assms(6) have fin: "finite A" "finite B" "finite (A \<union> B)"
    by (auto intro: finite_subset[of _ "{0..<ncols base_DIF}"])
  from assms(4) have bw: "0 \<le> (p + 1) * int ?n + 1" by simp
  have sh: "nrows (restrict_cols m S) = nrows m" "ncols (restrict_cols m S) = card S"
    if "finite S" for m S
    using that by (simp_all add: restrict_cols_def select_cols_def)
  have ex: "\<exists>M. build_banded (restrict_cols base_DIF S) (restrict_cols temporal S) p = Inr M \<and>
              shaped ?W ?N M \<and>
              (\<forall>r<?W. \<forall>c<?N. entry M r c =
                 band_value (restrict_cols base_DIF S) (restrict_cols temporal S) p r c)"
    if "finite S" for S
    using build_banded_entries[of "restrict_cols base_DIF S" "restrict_cols temporal S" p]
      bw sh[OF that] by simp
  from ex[OF fin(3)] obtain M where M:
    "build_banded (restrict_cols base_DIF (A \<union> B)) (restrict_cols temporal (A \<union> B)) p = Inr M"
    "shaped ?W ?N M"
    "\<forall>r<?W. \<forall>c<?N. entry M r c =
        band_value (restrict_cols base_DIF (A \<union> B)) (restrict_cols temporal (A \<union> B)) p r c"
    by blast
  from ex[OF fin(1)] obtain MA where MA:
    "build_banded (restrict_cols base_DIF A) (restrict_cols temporal A) p = Inr MA"
    "shaped ?W ?N MA"
    "\<forall>r<?W. \<forall>c<?N. entry MA r c =
        band_value (restrict_cols base_DIF A) (restrict_cols temporal A) p r c"
    by blast
  from ex[OF fin(2)] obtain MB where MB:
    "build_banded (restrict_cols base_DIF B) (restrict_cols temporal B) p = Inr MB"
    "shaped ?W ?N MB"
    "\<forall>r<?W. \<forall>c<?N. entry MB r c =
        band_value (restrict_cols base_DIF B) (restrict_cols temporal B) p r c"
    by blast
  have "M = madd MA MB"
  proof (rule matrix_eqI[OF M(2) madd_shaped[OF MA(2) MB(2)]])
    fix i j assume ij: "i < ?W" "j < ?N"
    have "band_value (restrict_cols base_DIF (A \<union> B)) (restrict_cols temporal (A \<union> B)) p i j
          = band_value (restrict_cols base_DIF A) (restrict_cols temporal A) p i j
            + band_value (restrict_cols base_DIF B) (restrict_cols temporal B) p i j"
      unfolding band_value_restrict_cols[OF ij(2) fin(1)] band_value_restrict_cols[OF ij(2) fin(2)]
        band_value_restrict_cols[OF ij(2) fin(3)] Let_def
      by (simp add: sum.union_disjoint[OF fin(1,2) assms(5)])
    with ij M(3) MA(3) MB(3) show "entry M i j = entry (madd MA MB) i j"
      by (simp add: madd_entry[OF MA(2) MB(2)])
  qed
  moreover have "build_banded base_DIF temporal p = Inr M" if "A \<union> B = {0..<ncols base_DIF}"
  proof -
    have "restrict_cols base_DIF (A \<union> B) = base_DIF"
      unfolding that restrict_cols_def using select_cols_all[OF assms(1)] by simp
    moreover have "restrict_cols temporal (A \<union> B) = temporal"
      unfolding that restrict_cols_def assms(3) using select_cols_all[OF assms(2)] by simp
    ultimately show ?thesis using M(1) by simp
  qed
  ultimately show ?thesis using M(1) MA(1) MB(1) by blast
qed

theorem build_banded_additive_witness:
  "wf_matrix ex_base \<and> wf_matrix ex_temporal \<and> ncols ex_base = ncols ex_temporal \<and> (0::int) \<le> 1 \<and>
   ints_fit ex_base ex_temporal 1 ((1 + 1) * int (nrows ex_base) + 1) \<and>
   {0, 2} \<inter> {1, 3} = ({}::nat set) \<and> {0, 2} \<union> {1, 3} = {0..<ncols ex_base} \<and>
   (\<exists>M MA MB.
      build_banded (restrict_cols ex_base {0, 2}) (restrict_cols ex_temporal {0, 2}) 1 = Inr MA \<and>
      build_banded (restrict_cols ex_base {1, 3}) (restrict_cols ex_temporal {1, 3}) 1 = Inr MB \<and>
      build_banded ex_base ex_temporal 1 = Inr M \<and> M = madd MA MB)"
proof -
  have h: "wf_matrix ex_base" "wf_matrix ex_temporal" "ncols ex_base = ncols ex_temporal"
    by (simp_all add: wf_matrix_def ex_base_def ex_temporal_def)
  have f: "ints_fit ex_base ex_temporal 1 ((1 + 1) * int (nrows ex_base) + 1)"
    by (simp add: ints_fit_def c_int_def ex_base_def ex_temporal_def)
  have d: "{0, 2} \<inter> {1, 3} = ({}::nat set)" by simp
  have u: "{0, 2} \<union> {1, 3} = {0..<ncols ex_base}"
    by (auto simp: ex_base_def)
  then have s: "{0, 2} \<union> {1, 3} \<subseteq> {0..<ncols ex_base}" by simp
  from build_banded_additive[OF h _ d s f] u h d f show ?thesis
    by auto
qed

text \<open>
  Claim C9. For every valid input with \<open>p \<ge> 0\<close> the full matrix read back from the band,
  \<open>full_entry\<close>, is symmetric. The band parameter of a valid input is the support width of
  the temporal basis (\<open>band_compatible\<close>); then every entry of the implied matrix is the sum
  over the observations of the products of two components of the design row, that is, the
  matrix is the sum of the outer products of the design rows, and \<open>v\<^sup>T M v \<ge> 0\<close> for every
  vector \<open>v\<close>.
\<close>

theorem implied_matrix_psd:
  assumes "wf_matrix base_DIF" and "wf_matrix temporal"
    and "ncols base_DIF = ncols temporal" and "0 \<le> p"
    and "ints_fit base_DIF temporal p ((p + 1) * int (nrows base_DIF) + 1)"
  shows "\<exists>banded. build_banded base_DIF temporal p = Inr banded \<and>
           (\<forall>r c. full_entry banded r c = full_entry banded c r) \<and>
           (band_compatible temporal p \<longrightarrow>
              (\<forall>r<nrows temporal * nrows base_DIF. \<forall>c<nrows temporal * nrows base_DIF.
                 full_entry banded r c =
                   (\<Sum>kt<ncols base_DIF.
                      design base_DIF temporal kt r * design base_DIF temporal kt c)) \<and>
              (\<forall>v. 0 \<le> quad_form (nrows temporal * nrows base_DIF) (full_entry banded) v))"
proof -
  let ?W = "nat ((p + 1) * int (nrows base_DIF) + 1)"
  let ?N = "nrows temporal * nrows base_DIF"
  from assms(4) have bw: "0 \<le> (p + 1) * int (nrows base_DIF) + 1" by simp
  from build_banded_entries[of base_DIF temporal p] assms(3) bw
  obtain B where B: "build_banded base_DIF temporal p = Inr B" "shaped ?W ?N B"
    "\<forall>r<?W. \<forall>c<?N. entry B r c = band_value base_DIF temporal p r c"
    by auto
  have sym: "full_entry B r c = full_entry B c r" for r c
    by (simp add: full_entry_def Let_def min.commute max.commute)
  have outer: "full_entry B r c =
      (\<Sum>kt<ncols base_DIF. design base_DIF temporal kt r * design base_DIF temporal kt c)"
    if "band_compatible temporal p" "r < ?N" "c < ?N" for r c
  proof -
    have "full_entry B r c = gram base_DIF temporal r c"
      by (rule full_entry_gram[OF B(2,3) that(1) assms(3,4) that(2,3)])
    also have "\<dots> =
      (\<Sum>kt<ncols base_DIF. design base_DIF temporal kt r * design base_DIF temporal kt c)"
      unfolding gram_def
      by (rule sum.cong) (simp_all add: summand_def design_def Let_def)
    finally show ?thesis .
  qed
  have psd: "0 \<le> quad_form ?N (full_entry B) v" if bc: "band_compatible temporal p" for v
  proof -
    have "quad_form ?N (full_entry B) v = quad_form ?N (gram base_DIF temporal) v"
      unfolding quad_form_def
      by (intro sum.cong refl) (simp add: full_entry_gram[OF B(2,3) bc assms(3,4)])
    then show ?thesis by (simp add: quad_form_gram_nonneg)
  qed
  from B(1) sym outer psd show ?thesis by blast
qed

theorem implied_matrix_psd_witness:
  "wf_matrix ex_base \<and> wf_matrix ex_temporal \<and> ncols ex_base = ncols ex_temporal \<and> (0::int) \<le> 1 \<and>
   ints_fit ex_base ex_temporal 1 ((1 + 1) * int (nrows ex_base) + 1) \<and>
   band_compatible ex_temporal 1 \<and>
   (\<exists>banded. build_banded ex_base ex_temporal 1 = Inr banded \<and>
      full_entry banded 1 3 = full_entry banded 3 1 \<and>
      full_entry banded 1 3 = 2 \<and>
      0 \<le> quad_form (nrows ex_temporal * nrows ex_base) (full_entry banded) probe)"
proof -
  have h: "wf_matrix ex_base" "wf_matrix ex_temporal" "ncols ex_base = ncols ex_temporal"
    by (simp_all add: wf_matrix_def ex_base_def ex_temporal_def)
  have f: "ints_fit ex_base ex_temporal 1 ((1 + 1) * int (nrows ex_base) + 1)"
    by (simp add: ints_fit_def c_int_def ex_base_def ex_temporal_def)
  have bc: "band_compatible ex_temporal 1"
    by code_simp
  from implied_matrix_psd[OF h _ f] bc
  obtain banded where b: "build_banded ex_base ex_temporal 1 = Inr banded"
    "\<forall>r c. full_entry banded r c = full_entry banded c r"
    "\<forall>r<nrows ex_temporal * nrows ex_base. \<forall>c<nrows ex_temporal * nrows ex_base.
        full_entry banded r c =
          (\<Sum>kt<ncols ex_base. design ex_base ex_temporal kt r * design ex_base ex_temporal kt c)"
    "\<forall>v. 0 \<le> quad_form (nrows ex_temporal * nrows ex_base) (full_entry banded) v"
    by auto
  have "(1::nat) < nrows ex_temporal * nrows ex_base" "(3::nat) < nrows ex_temporal * nrows ex_base"
    by (simp_all add: ex_base_def ex_temporal_def)
  with b(3) have "full_entry banded 1 3 =
      (\<Sum>kt<ncols ex_base. design ex_base ex_temporal kt 1 * design ex_base ex_temporal kt 3)"
    by blast
  also have "\<dots> = 2"
    by (simp add: design_def ex_base_def ex_temporal_def entry_def lessThan_nat_numeral
          lessThan_Suc)
  finally have "full_entry banded 1 3 = 2" .
  with h f bc b(1,2,4) show ?thesis by auto
qed

text \<open>
  The condition on the support is needed for the last two statements. \<^verbatim>\<open>build_banded\<close>
  leaves out the products of blocks more than \<open>p\<close> apart whether they vanish or not: for
  three temporal functions that are all \<open>1\<close> at the single observation and \<open>p = 1\<close>, an input
  whose band parameter is smaller than the support of its basis, the implied matrix is
  the tridiagonal matrix of ones, and its quadratic form at \<open>(2, -3, 2)\<close> is \<open>-7\<close>.
\<close>

lemma psd_needs_local_support:
  "\<not> band_compatible ones_temporal 1 \<and>
   (\<exists>banded. build_banded ones_base ones_temporal 1 = Inr banded \<and>
      quad_form (nrows ones_temporal * nrows ones_base) (full_entry banded) probe = - 7)"
proof -
  have "\<not> band_compatible ones_temporal 1"
    by code_simp
  moreover have "quad_form (nrows ones_temporal * nrows ones_base)
      (full_entry \<lparr>nrows = 3, ncols = 3, buf = [0, 0, 0,  0, 1, 1,  1, 1, 1]\<rparr>) probe = - 7"
    by (simp add: ones_base_def ones_temporal_def quad_form_def full_entry_def
          entry_def probe_def lessThan_nat_numeral lessThan_Suc)
  ultimately show ?thesis
    unfolding ones_result by simp
qed

section \<open>Inputs outside the contract\<close>

text \<open>
  Claim C4, as amended. Neither \<^verbatim>\<open>build_banded\<close> nor \<^verbatim>\<open>build_banded_2\<close> compares shapes.
  \<^verbatim>\<open>build_banded\<close> takes \<open>n_data\<close> from \<open>base_DIF\<close> alone: when \<open>temporal\<close> has at least as
  many columns, it returns, with no error, the array assembled from the first \<open>n_data\<close>
  columns of \<open>temporal\<close>. \<^verbatim>\<open>build_banded_2\<close> never reads the length of \<open>starts\<close>: when the
  indices it reads are in range, whatever follows them in \<open>starts\<close> changes nothing. Both
  statements are for \<open>p \<ge> 0\<close> and C integers in range (\<open>ints_fit\<close>).
\<close>

theorem no_shape_check:
  assumes "wf_matrix base_DIF" and "wf_matrix temporal"
    and "ncols base_DIF \<le> ncols temporal" and "0 \<le> p"
    and "ints_fit base_DIF temporal p ((p + 1) * int (nrows base_DIF) + 1)"
  shows "(\<exists>banded. build_banded base_DIF temporal p = Inr banded \<and>
            build_banded base_DIF (select_cols temporal [0..<ncols base_DIF]) p = Inr banded) \<and>
         (\<forall>nonzero_inds starts extra.
            grouping_in_range (nrows temporal) (ncols base_DIF) nonzero_inds starts \<longrightarrow>
            (\<exists>banded. build_banded_2 base_DIF temporal p nonzero_inds (starts @ extra) = Inr banded \<and>
               build_banded_2 base_DIF temporal p nonzero_inds starts = Inr banded))"
proof -
  let ?n = "nrows base_DIF"
  let ?W = "nat ((p + 1) * int ?n + 1)"
  let ?N = "nrows temporal * ?n"
  let ?T = "select_cols temporal [0..<ncols base_DIF]"
  from assms(4) have bw: "0 \<le> (p + 1) * int ?n + 1" by simp
  have T: "nrows ?T = nrows temporal" "ncols ?T = ncols base_DIF"
    by (simp_all add: select_cols_def)
  from build_banded_entries[OF assms(3) bw]
  obtain B where B: "build_banded base_DIF temporal p = Inr B" "shaped ?W ?N B"
    "\<forall>r<?W. \<forall>c<?N. entry B r c = band_value base_DIF temporal p r c"
    by auto
  from build_banded_entries[of base_DIF ?T p] bw T
  obtain B' where B': "build_banded base_DIF ?T p = Inr B'" "shaped ?W ?N B'"
    "\<forall>r<?W. \<forall>c<?N. entry B' r c = band_value base_DIF ?T p r c"
    by auto
  have "B' = B"
    by (rule matrix_eqI[OF B'(2) B(2)]) (simp add: B(3) B'(3) band_value_prefix)
  with B(1) B'(1) have first: "\<exists>banded. build_banded base_DIF temporal p = Inr banded \<and>
            build_banded base_DIF ?T p = Inr banded" by simp
  have second: "\<exists>banded. build_banded_2 base_DIF temporal p nz (st @ extra) = Inr banded \<and>
               build_banded_2 base_DIF temporal p nz st = Inr banded"
    if g: "grouping_in_range (nrows temporal) (ncols base_DIF) nz st" for nz st extra
  proof -
    from build_banded_2_entries[OF g _ assms(3) bw]
    obtain C where C: "build_banded_2 base_DIF temporal p nz st = Inr C" "shaped ?W ?N C"
      "\<forall>r<?W. \<forall>c<?N. entry C r c = band_value_2 base_DIF temporal p nz st r c"
      by auto
    from build_banded_2_entries[OF grouping_in_range_append[OF g, where extra = extra] _ assms(3) bw]
    obtain C' where C': "build_banded_2 base_DIF temporal p nz (st @ extra) = Inr C'"
      "shaped ?W ?N C'"
      "\<forall>r<?W. \<forall>c<?N. entry C' r c = band_value_2 base_DIF temporal p nz (st @ extra) r c"
      by auto
    have "C' = C"
      by (rule matrix_eqI[OF C'(2) C(2)]) (simp add: C(3) C'(3) band_value_2_append[OF g])
    with C(1) C'(1) show ?thesis by simp
  qed
  from first second show ?thesis by blast
qed

theorem no_shape_check_witness:
  "wf_matrix ones_base \<and> wf_matrix wide_temporal \<and> ncols ones_base \<le> ncols wide_temporal \<and>
   (0::int) \<le> 0 \<and>
   ints_fit ones_base wide_temporal 0 ((0 + 1) * int (nrows ones_base) + 1) \<and>
   grouping_in_range (nrows wide_temporal) (ncols ones_base) [0] [0, 1] \<and>
   (\<exists>banded. build_banded ones_base wide_temporal 0 = Inr banded \<and>
      build_banded ones_base (select_cols wide_temporal [0..<ncols ones_base]) 0 = Inr banded) \<and>
   (\<exists>banded. build_banded_2 ones_base wide_temporal 0 [0] ([0, 1] @ [7]) = Inr banded \<and>
      build_banded_2 ones_base wide_temporal 0 [0] [0, 1] = Inr banded)"
proof -
  have h: "wf_matrix ones_base" "wf_matrix wide_temporal" "ncols ones_base \<le> ncols wide_temporal"
    by (simp_all add: wf_matrix_def ones_base_def wide_temporal_def)
  have g: "grouping_in_range (nrows wide_temporal) (ncols ones_base) [0] [0, 1]"
    by (simp add: grouping_in_range_def group_slice_def py_range_def ones_base_def wide_temporal_def
          c_int_def)
  have f: "ints_fit ones_base wide_temporal 0 ((0 + 1) * int (nrows ones_base) + 1)"
    by (simp add: ints_fit_def c_int_def ones_base_def wide_temporal_def)
  from no_shape_check[OF h _ f]
  have a: "\<exists>banded. build_banded ones_base wide_temporal 0 = Inr banded \<and>
      build_banded ones_base (select_cols wide_temporal [0..<ncols ones_base]) 0 = Inr banded"
    and b: "\<And>nonzero_inds starts extra.
      grouping_in_range (nrows wide_temporal) (ncols ones_base) nonzero_inds starts \<Longrightarrow>
      \<exists>banded. build_banded_2 ones_base wide_temporal 0 nonzero_inds (starts @ extra) = Inr banded \<and>
         build_banded_2 ones_base wide_temporal 0 nonzero_inds starts = Inr banded"
    by simp_all
  from a b[OF g, of "[7]"] g h f show ?thesis
    by (intro conjI) simp_all
qed

text \<open>
  The claim as stated fails: with one observation in \<open>base_DIF\<close> and two in \<open>temporal\<close>,
  and with three offsets where \<open>n_t * n_t + 1 = 2\<close> are expected, both calls return an array.
\<close>

theorem no_shape_check_counterexample:
  "ncols ones_base \<noteq> ncols wide_temporal \<and>
   build_banded ones_base wide_temporal 0 = Inr \<lparr>nrows = 2, ncols = 1, buf = [0, 1]\<rparr> \<and>
   length [0, 1, 7 :: int] \<noteq> nrows wide_temporal * nrows wide_temporal + 1 \<and>
   build_banded_2 ones_base wide_temporal 0 [0] [0, 1, 7]
     = Inr \<lparr>nrows = 2, ncols = 1, buf = [0, 1]\<rparr>"
  by code_simp

text \<open>
  Claim C5, as amended. No function checks its band parameter. With a negative \<open>p\<close> or
  \<open>deg\<close> the only failure is the \<^verbatim>\<open>ValueError\<close> of \<^verbatim>\<open>np.zeros\<close>, raised when the computed
  bandwidth is negative. When the bandwidth computed from a negative parameter is not
  negative, every cell is skipped and the call returns the array of zeros of that shape
  (\<^verbatim>\<open>build_banded_3\<close> reads \<open>nlefts\<close> first, one entry per observation). This is so when
  the bandwidths, the sizes and the entries of \<open>nlefts\<close> are within the range of the C
  \<^verbatim>\<open>int\<close>; where the bandwidth computation wraps around, the sign the code sees is that of
  the wrapped value, about which nothing is stated.
\<close>

theorem negative_band_parameter:
  assumes "p < 0"
    and "ints_fit base_DIF temporal p ((p + 1) * int (nrows base_DIF) + 1)"
    and "c_int ((p + 1) * int (nrows base_DIF))"
    and "list_all c_int nlefts"
  shows "build_banded base_DIF temporal p =
           (if (p + 1) * int (nrows base_DIF) + 1 < 0 then Inl ValueError
            else Inr (zeros (nat ((p + 1) * int (nrows base_DIF) + 1))
                       (nrows temporal * nrows base_DIF))) \<and>
         build_banded_2 base_DIF temporal p nonzero_inds starts =
           (if (p + 1) * int (nrows base_DIF) + 1 < 0 then Inl ValueError
            else Inr (zeros (nat ((p + 1) * int (nrows base_DIF) + 1))
                       (nrows temporal * nrows base_DIF))) \<and>
         build_banded_3 nlefts base_DIF temporal p =
           (if (p + 1) * int (nrows base_DIF) < 0 then Inl ValueError
            else if ncols base_DIF \<le> length nlefts
            then Inr (zeros (nat ((p + 1) * int (nrows base_DIF)))
                       (nrows temporal * nrows base_DIF))
            else Inl OutOfBounds)"
proof -
  let ?n = "int (nrows base_DIF)"
  let ?bw = "(p + 1) * ?n + 1"
  have skip: "p < \<bar>a\<bar>" for a :: int using assms(1) by simp
  have first: "build_banded base_DIF temporal p =
           (if ?bw < 0 then Inl ValueError
            else Inr (zeros (nat ?bw) (nrows temporal * nrows base_DIF)))"
    unfolding build_banded_def Let_def
    by (simp add: np_zeros_neg np_zeros_nonneg skip for_each_Inr)
  have second: "build_banded_2 base_DIF temporal p nonzero_inds starts =
           (if ?bw < 0 then Inl ValueError
            else Inr (zeros (nat ?bw) (nrows temporal * nrows base_DIF)))"
    unfolding build_banded_2_def Let_def
    by (simp add: np_zeros_neg np_zeros_nonneg skip for_each_Inr)
  have empty: "py_range (nl - p) (nl + 1) = []" for nl
    using assms(1) by (simp add: py_range_def)
  define body where "body = (\<lambda>it banded.
           bind_err (aget nlefts it) (\<lambda>nl.
           for_each (py_range (nl - p) (nl + 1)) (\<lambda>pp banded.
             if int (nrows temporal) \<le> pp then Inr banded
             else
               for_each (py_range pp (nl + 1)) (\<lambda>q banded.
                 if int (nrows temporal) \<le> q then Inr banded
                 else
                   for_each (py_range 0 ?n) (\<lambda>j banded.
                     for_each (py_range 0 ?n) (\<lambda>i banded.
                       let ind = ?n * (4 + pp - q) + j - i - 1 in
                       bind_err (mget temporal pp it) (\<lambda>a.
                       bind_err (mget temporal q it) (\<lambda>b.
                       bind_err (mget base_DIF i it) (\<lambda>c.
                       bind_err (mget base_DIF j it) (\<lambda>d.
                       madd_at banded ind (i + q * ?n) (a * b * c * d))))))
                       banded) banded) banded) banded))"
  have unfold: "build_banded_3 nlefts base_DIF temporal p =
      bind_err (np_zeros ((p + 1) * ?n) (int (nrows temporal) * ?n))
        (for_each (py_range 0 (int (ncols base_DIF))) body)"
    unfolding build_banded_3_def Let_def body_def ..
  have ok: "body (int k) s = Inr s" if "k < length nlefts" for k s
    using that by (simp add: body_def aget_def empty)
  have bad: "body (int k) s = Inl OutOfBounds" if "length nlefts \<le> k" for k s
    using that by (simp add: body_def aget_def)
  have loop: "for_each (py_range 0 (int (ncols base_DIF))) body s =
      (if ncols base_DIF \<le> length nlefts then Inr s else Inl OutOfBounds)" for s
  proof (cases "ncols base_DIF \<le> length nlefts")
    case True
    then have "for_each (py_range 0 (int (ncols base_DIF))) body s = Inr s"
      by (intro for_each_id) (auto simp: py_range_def ok)
    with True show ?thesis by simp
  next
    case False
    then have L: "length nlefts < ncols base_DIF" by simp
    have "for_each (py_range 0 (int (ncols base_DIF))) body s = Inl OutOfBounds"
      unfolding py_range_split[OF L]
      by (rule for_each_fail) (auto simp: py_range_def ok bad)
    with False show ?thesis by simp
  qed
  have third: "build_banded_3 nlefts base_DIF temporal p =
           (if (p + 1) * ?n < 0 then Inl ValueError
            else if ncols base_DIF \<le> length nlefts
            then Inr (zeros (nat ((p + 1) * ?n)) (nrows temporal * nrows base_DIF))
            else Inl OutOfBounds)"
    unfolding unfold
    by (simp add: np_zeros_neg np_zeros_nonneg loop)
  from first second third show ?thesis by (intro conjI)
qed

theorem negative_band_parameter_witness:
  "(- 3::int) < 0 \<and>
   ints_fit ex_base ex_temporal (- 3) ((- 3 + 1) * int (nrows ex_base) + 1) \<and>
   c_int ((- 3 + 1) * int (nrows ex_base)) \<and> list_all c_int [] \<and>
   build_banded ex_base ex_temporal (- 3) = Inl ValueError \<and>
   build_banded_2 ex_base ex_temporal (- 3) ex_nonzero_inds ex_starts = Inl ValueError \<and>
   build_banded_3 [] ex_base ex_temporal (- 3) = Inl ValueError"
proof -
  have f: "ints_fit ex_base ex_temporal (- 3) ((- 3 + 1) * int (nrows ex_base) + 1)"
    "c_int ((- 3 + 1) * int (nrows ex_base))" "list_all c_int []"
    by (simp_all add: ints_fit_def c_int_def ex_base_def ex_temporal_def)
  from negative_band_parameter[OF _ f, where nonzero_inds = ex_nonzero_inds and starts = ex_starts]
    f show ?thesis
    by (simp add: ex_base_def)
qed

text \<open>The claim as stated fails at \<open>p = -1\<close> and \<open>deg = -1\<close>: the calls return arrays of zeros.\<close>

theorem negative_band_parameter_counterexample:
  "build_banded ex_base ex_temporal (- 1) = Inr (zeros 1 6) \<and>
   build_banded_2 ex_base ex_temporal (- 1) ex_nonzero_inds ex_starts = Inr (zeros 1 6) \<and>
   build_banded_3 [3, 3, 3, 3] ex_base ex_temporal (- 1) = Inr (zeros 0 6)"
  by code_simp

section \<open>The local-window assembler\<close>

text \<open>
  Claim C6 does not hold of the code. The window \<^verbatim>\<open>range(nlefts[it]-deg, nlefts[it]+1)\<close> is
  cut at its upper end only (\<^verbatim>\<open>if n_t <= p: continue\<close>, and the same for \<open>q\<close>); a negative
  index is used as it is. With four temporal functions, \<open>deg = 3\<close> and \<open>nlefts = [2]\<close> the
  first index is \<open>-1\<close>, and \<^verbatim>\<open>temporal[-1, 0]\<close> lies outside the array. At the upper end,
  \<open>nlefts = [4]\<close>, the indices \<open>\<ge> n_t\<close> are skipped and the call returns.
\<close>

theorem build_banded_3_lower_window:
  "build_banded_3 [2] ones_base knots_temporal 3 = Inl OutOfBounds \<and>
   build_banded_3 [4] ones_base knots_temporal 3
     = Inr \<lparr>nrows = 4, ncols = 4, buf = [0, 0, 0, 0,  0, 0, 0, 10,  0, 0, 6, 15,  0, 4, 9, 25]\<rparr>"
  by code_simp

text \<open>
  Claim C3 does not hold of the code. The band row is
  \<^verbatim>\<open>n_coeffs * (4 + p - q) + j - i - 1\<close>: the literal \<open>4\<close> is \<open>deg + 1\<close> for \<open>deg = 3\<close> only.
  \<^item> With \<open>deg = 2\<close>, one coefficient and \<open>nlefts = [2]\<close>, the first write goes to band row
    \<open>3\<close> of an array of \<open>3\<close> rows, while \<^verbatim>\<open>build_banded\<close> with \<open>p = 2\<close> returns.
  \<^item> With \<open>deg = 4\<close>, one coefficient and \<open>nlefts = [4]\<close>, every access is in range, and the
    main diagonal \<open>1, 4, 9, 25\<close> is stored in band row \<open>3\<close> of the \<open>5\<close> rows, not in the last
    one. The two conventions differ by one leading row of zeros; moved down by that row
    the diagonal is in row \<open>4\<close>, while \<^verbatim>\<open>build_banded\<close> with \<open>p = 4\<close> has it in its last row,
    \<open>5\<close>.
  \<^item> With \<open>deg = 3\<close> and two coefficients, the pairs \<open>p = q\<close>, \<open>i < j\<close> of the lower triangle
    are written to band rows past the last one.
\<close>

theorem build_banded_3_degree_literal:
  "build_banded_3 [2] ones_base ones_temporal 2 = Inl OutOfBounds \<and>
   build_banded ones_base ones_temporal 2
     = Inr \<lparr>nrows = 4, ncols = 3, buf = [0, 0, 0,  0, 0, 1,  0, 1, 1,  1, 1, 1]\<rparr> \<and>
   build_banded_3 [4] ones_base knots_temporal 4
     = Inr \<lparr>nrows = 5, ncols = 4,
            buf = [0, 0, 0, 5,  0, 0, 3, 10,  0, 2, 6, 15,  1, 4, 9, 25,  0, 0, 0, 0]\<rparr> \<and>
   build_banded ones_base knots_temporal 4
     = Inr \<lparr>nrows = 6, ncols = 4,
            buf = [0, 0, 0, 0,  0, 0, 0, 0,  0, 0, 0, 5,  0, 0, 3, 10,  0, 2, 6, 15,
                   1, 4, 9, 25]\<rparr> \<and>
   build_banded_3 [3] pair_base knots_temporal 3 = Inl OutOfBounds"
  by code_simp

end
